theory Spec2Isabelle
  imports Main "HOL-Library.AList" "HOL-Library.Char_ord" "HOL-Library.List_Lexorder"
begin

text \<open>
  A shallow embedding of the identity resolution and version reconciliation of the GOG
  installer update checker: \<^verbatim>\<open>dedup_installers_id\<close>, \<^verbatim>\<open>normalize_version_name\<close>, the hyphen
  loop of \<^verbatim>\<open>get_product_id\<close>, \<^verbatim>\<open>search_product_id_on_gog\<close>, \<^verbatim>\<open>is_main_game\<close>,
  \<^verbatim>\<open>versions_should_match\<close>, \<^verbatim>\<open>compare_new_versions\<close>, \<^verbatim>\<open>compare_old_versions\<close>,
  \<^verbatim>\<open>sort_local_info\<close> and \<^verbatim>\<open>compare_versions\<close>. The repository holds the program twice,
  as main.py and as the later gog_installer_update_checker.py; where the two differ, the
  definition of the later file carries the plain name and the one of main.py the suffix
  \<open>_main\<close>, or the text says which file is followed. The definitions come first, the
  theorems after them.
\<close>

section \<open>Python dictionaries and strings\<close>

text \<open>
  A Python \<^verbatim>\<open>dict\<close> keeps its keys in insertion order, so it is an association list
  with distinct keys: \<^verbatim>\<open>d[k] = v\<close> is \<open>AList.update k v d\<close> (an existing key keeps its
  place, a new key goes to the end), \<^verbatim>\<open>d[k]\<close> is \<open>map_of d k\<close>, and
  \<^verbatim>\<open>sorted(d.keys())\<close> is \<open>sort (map fst d)\<close>.

  A Python \<^verbatim>\<open>str\<close> is a \<open>string\<close> whose characters stand for the code points
  U+0000 to U+00FF; \<open>of_char\<close> reads the code point. The orders of
  \<open>HOL-Library.Char_ord\<close> and \<open>HOL-Library.List_Lexorder\<close> compare such strings as
  Python does, code point by code point.
\<close>

type_synonym ('k, 'v) dict = "('k \<times> 'v) list"

definition sorted_keys :: "('k::linorder, 'v) dict \<Rightarrow> 'k list" where
  "sorted_keys d = sort (map fst d)"

section \<open>dedup_installers_id\<close>

text \<open>
  One pass of the inner \<^verbatim>\<open>for installer_path in sorted(installers_dict.keys())\<close>: the first
  path, in sorted order, that is mapped to \<open>product_id\<close>, if there is one.
\<close>

definition first_path :: "('p::linorder, 'i) dict \<Rightarrow> 'i \<Rightarrow> 'p option" where
  "first_path installers_dict product_id =
     find (\<lambda>installer_path. map_of installers_dict installer_path = Some product_id)
       (sorted_keys installers_dict)"

text \<open>
  \<^verbatim>\<open>while not found:\<close> repeats that pass until it finds a path. A pass that finds nothing
  changes no variable, so the loop is a recursion that may not return; \<open>None\<close> is the loop
  that runs forever.
\<close>

partial_function (option) scan_until_found :: "('p::linorder, 'i) dict \<Rightarrow> 'i \<Rightarrow> 'p option" where
  "scan_until_found installers_dict product_id =
     (case first_path installers_dict product_id of
        Some installer_path \<Rightarrow> Some installer_path
      | None \<Rightarrow> scan_until_found installers_dict product_id)"

text \<open>
  The outer \<^verbatim>\<open>for product_id in id_list\<close>, filling \<^verbatim>\<open>deduped_installers_dict_aux\<close>. The
  value stored under a path is the dictionary \<^verbatim>\<open>{"product_id": product_id}\<close>, modelled by
  the id it holds.
\<close>

fun dedup_loop :: "('p::linorder, 'i) dict \<Rightarrow> 'i list \<Rightarrow> ('p, 'i) dict \<Rightarrow> ('p, 'i) dict option" where
  "dedup_loop installers_dict [] aux = Some aux"
| "dedup_loop installers_dict (product_id # id_list) aux =
     (case scan_until_found installers_dict product_id of
        None \<Rightarrow> None
      | Some installer_path \<Rightarrow>
          dedup_loop installers_dict id_list (AList.update installer_path product_id aux))"

text \<open>
  The final \<^verbatim>\<open>for item in sorted(aux.keys()): deduped[item] = aux[item]\<close>.
\<close>

definition sorted_copy :: "('p::linorder, 'i) dict \<Rightarrow> ('p, 'i) dict" where
  "sorted_copy aux =
     List.map_filter (\<lambda>item. map_option (Pair item) (map_of aux item)) (sorted_keys aux)"

text \<open>
  \<^verbatim>\<open>id_list = set(installers_dict.values())\<close> is iterated in an order Python does not
  fix (gog_installer_update_checker.py), or in sorted order (main.py). The order is the
  parameter \<open>id_list\<close>: any list without repetition of the ids that occur as values.
\<close>

definition dedup_installers_id ::
  "('p::linorder, 'i) dict \<Rightarrow> 'i list \<Rightarrow> ('p, 'i) dict option" where
  "dedup_installers_id installers_dict id_list =
     map_option sorted_copy (dedup_loop installers_dict id_list [])"

definition id_list_main :: "('p, 'i::linorder) dict \<Rightarrow> 'i list" where
  "id_list_main installers_dict = sort (remdups (map snd installers_dict))"

section \<open>Python values, errors and string functions\<close>

text \<open>
  Every exception the modelled code can raise is a value; a function that can raise returns
  \<open>py_error + 'a\<close>, with \<open>Inl\<close> for the exception. \<open>RecursionError\<close> is what CPython raises
  when calls nest deeper than its recursion limit.
\<close>

datatype py_error = TypeError | ValueError | KeyError | IndexError | RecursionError

text \<open>
  A scalar JSON value as \<^verbatim>\<open>json.load\<close> returns it: \<^verbatim>\<open>None\<close>, a \<^verbatim>\<open>str\<close> or an \<^verbatim>\<open>int\<close>.
  \<^verbatim>\<open>d.get(key)\<close> is \<open>JNull\<close> both for a missing key and for a JSON \<^verbatim>\<open>null\<close>. Python's
  \<^verbatim>\<open>==\<close> on these values is equality of the constructors (booleans and floats, which
  Python compares across types, are left out).
\<close>

datatype jval = JNull | JStr string | JInt int

definition UNKNOWN :: string where
  "UNKNOWN = ''Unknown''"

text \<open>\<^verbatim>\<open>str.isspace\<close> on U+0000 to U+00FF; \<^verbatim>\<open>str.strip()\<close>, \<^verbatim>\<open>str.split()\<close> and the regular
  expression \<^verbatim>\<open>\s\<close> use it.\<close>

definition is_space :: "char \<Rightarrow> bool" where
  "is_space c \<longleftrightarrow> (of_char c :: nat) \<in> {9, 10, 11, 12, 13, 28, 29, 30, 31, 32, 133, 160}"

definition py_strip :: "string \<Rightarrow> string" where
  "py_strip s = rev (dropWhile is_space (rev (dropWhile is_space s)))"

text \<open>\<^verbatim>\<open>s.split()\<close>: the maximal runs of characters that are not whitespace; \<open>w\<close> is the word
  being read.\<close>

fun split_from :: "string \<Rightarrow> string \<Rightarrow> string list" where
  "split_from w [] = (if w = [] then [] else [w])"
| "split_from w (c # cs) =
     (if is_space c then (if w = [] then split_from [] cs else w # split_from [] cs)
      else split_from (w @ [c]) cs)"

definition py_split :: "string \<Rightarrow> string list" where
  "py_split s = split_from [] s"

text \<open>\<^verbatim>\<open>s.replace(old, new)\<close>: every occurrence of \<open>old\<close>, left to right, without overlap.\<close>

function py_replace :: "string \<Rightarrow> string \<Rightarrow> string \<Rightarrow> string" where
  "py_replace old new [] = (if old = [] then new else [])"
| "py_replace old new (c # cs) =
     (if old = [] then new @ c # py_replace old new cs
      else if take (length old) (c # cs) = old
        then new @ py_replace old new (drop (length old) (c # cs))
      else c # py_replace old new cs)"
  by pat_completeness auto
termination
  by (relation "measure (\<lambda>(old, new, s). length s)") auto

text \<open>\<^verbatim>\<open>re.sub(pattern, repl, s, 1)\<close> for a pattern and a replacement without special
  characters: the first occurrence of \<open>pat\<close> only.\<close>

fun replace_first :: "string \<Rightarrow> string \<Rightarrow> string \<Rightarrow> string" where
  "replace_first pat new [] = (if pat = [] then new else [])"
| "replace_first pat new (c # cs) =
     (if take (length pat) (c # cs) = pat then new @ drop (length pat) (c # cs)
      else c # replace_first pat new cs)"

text \<open>\<^verbatim>\<open>str.lower()\<close> on U+0000 to U+00FF.\<close>

definition lower_char :: "char \<Rightarrow> char" where
  "lower_char c =
     (let n = (of_char c :: nat)
      in if (65 \<le> n \<and> n \<le> 90) \<or> (192 \<le> n \<and> n \<le> 222 \<and> n \<noteq> 215)
         then char_of (n + 32) else c)"

definition py_lower :: "string \<Rightarrow> string" where
  "py_lower s = map lower_char s"

text \<open>\<^verbatim>\<open>str(n)\<close> for an \<^verbatim>\<open>int\<close>: the decimal numeral, with a minus sign below zero. (The
  integers of the program come from \<^verbatim>\<open>int\<close> and \<^verbatim>\<open>json.load\<close>, which keep them within the
  4300 digits that \<^verbatim>\<open>str\<close> accepts.)\<close>

fun digits_of :: "nat \<Rightarrow> string" where
  "digits_of n =
     (if n < 10 then [char_of (48 + n)]
      else digits_of (n div 10) @ [char_of (48 + n mod 10)])"

declare digits_of.simps [simp del]

definition str_of_int :: "int \<Rightarrow> string" where
  "str_of_int i = (if i < 0 then CHR ''-'' # digits_of (nat (- i)) else digits_of (nat i))"

definition py_str :: "jval \<Rightarrow> string" where
  "py_str v = (case v of JNull \<Rightarrow> ''None'' | JStr s \<Rightarrow> s | JInt i \<Rightarrow> str_of_int i)"

text \<open>
  \<^verbatim>\<open>int(s)\<close> for a \<^verbatim>\<open>str\<close>: whitespace around the numeral is dropped (for \<^verbatim>\<open>int\<close> that is
  U+0009 to U+000D, the space, U+0085 and U+00A0), a sign may come first, and single
  underscores may stand between digits. CPython refuses a numeral of more than 4300
  digits (its default limit for the conversion between \<^verbatim>\<open>str\<close> and \<^verbatim>\<open>int\<close>). \<open>None\<close> is
  \<^verbatim>\<open>ValueError\<close>.
\<close>

definition is_digit :: "char \<Rightarrow> bool" where
  "is_digit c \<longleftrightarrow> 48 \<le> (of_char c :: nat) \<and> (of_char c :: nat) \<le> 57"

definition digit_val :: "char \<Rightarrow> int" where
  "digit_val c = int (of_char c) - 48"

definition is_int_space :: "char \<Rightarrow> bool" where
  "is_int_space c \<longleftrightarrow> (of_char c :: nat) \<in> {9, 10, 11, 12, 13, 32, 133, 160}"

fun more_digits :: "int \<Rightarrow> string \<Rightarrow> int option" where
  "more_digits acc [] = Some acc"
| "more_digits acc [c] = (if is_digit c then Some (acc * 10 + digit_val c) else None)"
| "more_digits acc (c # d # cs) =
     (if is_digit c then more_digits (acc * 10 + digit_val c) (d # cs)
      else if c = CHR ''_'' \<and> is_digit d then more_digits (acc * 10 + digit_val d) cs
      else None)"

definition digits_value :: "string \<Rightarrow> int option" where
  "digits_value s =
     (case s of [] \<Rightarrow> None
      | c # cs \<Rightarrow> if is_digit c then more_digits (digit_val c) cs else None)"

definition max_str_digits :: nat where
  "max_str_digits = 4300"

definition py_int :: "string \<Rightarrow> int option" where
  "py_int s =
     (if max_str_digits < length (filter is_digit s) then None
      else (case rev (dropWhile is_int_space (rev (dropWhile is_int_space s))) of
              [] \<Rightarrow> None
            | c # cs \<Rightarrow>
                if c = CHR ''-'' then map_option uminus (digits_value cs)
                else if c = CHR ''+'' then digits_value cs
                else digits_value (c # cs)))"

text \<open>
  The pattern of the build conversions in \<^verbatim>\<open>compare_new_versions\<close>:
  \<^verbatim>\<open>try: b = int(x)  except TypeError: b = UNKNOWN\<close>. \<^verbatim>\<open>int(None)\<close> raises the
  \<^verbatim>\<open>TypeError\<close> that is caught (the result \<open>None\<close> stands for \<^verbatim>\<open>UNKNOWN\<close>); a string that
  is no numeral raises \<^verbatim>\<open>ValueError\<close>, which is not caught.
\<close>

definition int_or_unknown :: "string option \<Rightarrow> py_error + int option" where
  "int_or_unknown x =
     (case x of None \<Rightarrow> Inr None
      | Some s \<Rightarrow> (case py_int s of None \<Rightarrow> Inl ValueError | Some n \<Rightarrow> Inr (Some n)))"

section \<open>normalize_version_name\<close>

definition illegal_characters :: "char list" where
  "illegal_characters =
     [CHR ''#'', CHR ''!'', CHR ''?'', CHR 0x5C, CHR ''/'', CHR ''~'', CHR ''|'', CHR ''&'', CHR ''$'']"

text \<open>
  The patterns of \<^verbatim>\<open>normalize_version_name\<close> end in \<^verbatim>\<open>$\<close>, which matches at the end of the
  string and also just before a newline that ends the string, and their \<^verbatim>\<open>.\<close> matches every
  character but the newline. So a match covers \<open>line_body s\<close>, which must hold no newline,
  and a substitution keeps \<open>line_end s\<close> behind the rewritten text.
\<close>

definition line_body :: "string \<Rightarrow> string" where
  "line_body s = (if s \<noteq> [] \<and> last s = CHR 0x0A then butlast s else s)"

definition line_end :: "string \<Rightarrow> string" where
  "line_end s = (if s \<noteq> [] \<and> last s = CHR 0x0A then [CHR 0x0A] else [])"

text \<open>\<^verbatim>\<open>re.match(r"^" + re.escape(character) + "+.+$", s)\<close>: the body starts with the
  character and has a second character for \<^verbatim>\<open>.+\<close>.\<close>

definition leading_match :: "char \<Rightarrow> string \<Rightarrow> bool" where
  "leading_match character s \<longleftrightarrow>
     CHR 0x0A \<notin> set (line_body s) \<and> 2 \<le> length (line_body s) \<and> hd (line_body s) = character"

text \<open>\<^verbatim>\<open>re.sub(r"^" + re.escape(character) + "+(.+)$", r"\1", s)\<close>: the greedy \<^verbatim>\<open>+\<close> takes the
  whole leading run, and gives one character back when the run is the whole body.\<close>

definition leading_sub :: "char \<Rightarrow> string \<Rightarrow> string" where
  "leading_sub character s =
     (if leading_match character s
      then (let rest = dropWhile (\<lambda>x. x = character) (line_body s)
            in (if rest = [] then [character] else rest) @ line_end s)
      else s)"

text \<open>\<^verbatim>\<open>re.match(r"^.+?" + re.escape(character) + "+$", s)\<close>.\<close>

definition trailing_match :: "char \<Rightarrow> string \<Rightarrow> bool" where
  "trailing_match character s \<longleftrightarrow>
     CHR 0x0A \<notin> set (line_body s) \<and> 2 \<le> length (line_body s) \<and> last (line_body s) = character"

text \<open>\<^verbatim>\<open>re.sub(r"^(.+?)" + re.escape(character) + r"+$", r"\1", s)\<close>: the lazy group stops
  before the trailing run, and keeps one character when the run is the whole body.\<close>

definition trailing_sub :: "char \<Rightarrow> string \<Rightarrow> string" where
  "trailing_sub character s =
     (if trailing_match character s
      then (let rest = rev (dropWhile (\<lambda>x. x = character) (rev (line_body s)))
            in (if rest = [] then [character] else rest) @ line_end s)
      else s)"

text \<open>The two \<^verbatim>\<open>while re.match(...): new_version_name = re.sub(...)\<close> loops.\<close>

function strip_leading :: "char \<Rightarrow> string \<Rightarrow> string" where
  "strip_leading character s =
     (if leading_match character s then strip_leading character (leading_sub character s) else s)"
  by pat_completeness auto
termination
proof (relation "measure (\<lambda>(character, s). length s)")
  show "wf (measure (\<lambda>(character :: char, s :: string). length s))" by simp
next
  fix character :: char and s :: string
  assume m: "leading_match character s"
  define b where "b = line_body s"
  from m have b: "2 \<le> length b" "hd b = character"
    by (simp_all add: leading_match_def b_def)
  then obtain b' where b': "b = character # b'" by (cases b) auto
  have "length (dropWhile (\<lambda>x. x = character) b') \<le> length b'"
    by (rule length_dropWhile_le)
  with b b' have "length (let rest = dropWhile (\<lambda>x. x = character) b
                          in if rest = [] then [character] else rest) < length b"
    by (cases b') (simp_all add: Let_def)
  moreover have "length s = length b + length (line_end s)"
    by (simp add: b_def line_body_def line_end_def)
  ultimately have "length (leading_sub character s) < length s"
    using m by (simp add: leading_sub_def b_def Let_def)
  then show "((character, leading_sub character s), (character, s))
               \<in> measure (\<lambda>(character, s). length s)"
    by simp
qed

function strip_trailing :: "char \<Rightarrow> string \<Rightarrow> string" where
  "strip_trailing character s =
     (if trailing_match character s then strip_trailing character (trailing_sub character s) else s)"
  by pat_completeness auto
termination
proof (relation "measure (\<lambda>(character, s). length s)")
  show "wf (measure (\<lambda>(character :: char, s :: string). length s))" by simp
next
  fix character :: char and s :: string
  assume m: "trailing_match character s"
  define b where "b = rev (line_body s)"
  from m have b: "2 \<le> length b" "hd b = character"
    by (simp_all add: trailing_match_def b_def hd_rev)
  then obtain b' where b': "b = character # b'" by (cases b) auto
  have "length (dropWhile (\<lambda>x. x = character) b') \<le> length b'"
    by (rule length_dropWhile_le)
  with b b' have "length (let rest = rev (dropWhile (\<lambda>x. x = character) b)
                          in if rest = [] then [character] else rest) < length b"
    by (cases b') (simp_all add: Let_def)
  moreover have "length s = length b + length (line_end s)"
    by (simp add: b_def line_body_def line_end_def)
  ultimately have "length (trailing_sub character s) < length s"
    using m by (simp add: trailing_sub_def b_def Let_def)
  then show "((character, trailing_sub character s), (character, s))
               \<in> measure (\<lambda>(character, s). length s)"
    by simp
qed

declare strip_leading.simps [simp del] strip_trailing.simps [simp del]

text \<open>\<^verbatim>\<open>while new_version_name.endswith("."): new_version_name = new_version_name[:-1]\<close>.\<close>

function strip_periods :: "string \<Rightarrow> string" where
  "strip_periods s = (if s \<noteq> [] \<and> last s = CHR ''.'' then strip_periods (butlast s) else s)"
  by pat_completeness auto
termination
  by (relation "measure length") auto

declare strip_periods.simps [simp del]

definition normalize_version_name :: "string \<Rightarrow> string" where
  "normalize_version_name version_name =
     strip_periods
       (py_replace ''_'' '' ''
          (py_strip
             (foldl (\<lambda>new_version_name character.
                       strip_trailing character (strip_leading character new_version_name))
                version_name illegal_characters)))"

section \<open>get_product_id: the hyphen loop\<close>

text \<open>
  The character class of the two patterns of the loop holds the ranges a to z and U+00E1 to
  U+00FA (a with acute to u with acute) and U+00F1 (n with tilde). Under \<^verbatim>\<open>re.IGNORECASE\<close>
  it matches, on U+0000 to U+00FF: a to z, A to Z, U+00E1 to U+00FA, and the capitals
  U+00C1 to U+00DA without the multiplication sign U+00D7.
\<close>

definition is_name_letter :: "char \<Rightarrow> bool" where
  "is_name_letter c \<longleftrightarrow>
     (let n = (of_char c :: nat)
      in (97 \<le> n \<and> n \<le> 122) \<or> (65 \<le> n \<and> n \<le> 90) \<or> (225 \<le> n \<and> n \<le> 250) \<or>
         (193 \<le> n \<and> n \<le> 218 \<and> n \<noteq> 215))"

text \<open>The loop condition, \<^verbatim>\<open>re.search\<close> for the class followed by \<^verbatim>\<open>-\<close>: a letter of the
  class with a hyphen right behind it, anywhere in the name.\<close>

fun letter_hyphen :: "string \<Rightarrow> bool" where
  "letter_hyphen (a # b # cs) \<longleftrightarrow> (is_name_letter a \<and> b = CHR ''-'') \<or> letter_hyphen (b # cs)"
| "letter_hyphen [a] \<longleftrightarrow> False"
| "letter_hyphen [] \<longleftrightarrow> False"

text \<open>The loop body, \<^verbatim>\<open>re.sub\<close> of the class (as group 1), \<^verbatim>\<open>-\<close> and \<^verbatim>\<open>\s\<close> by \<^verbatim>\<open>r"\1 - "\<close>:
  every letter, hyphen and whitespace character in a row, left to right, becomes the
  letter, a space, the hyphen and a space.\<close>

fun hyphen_sub :: "string \<Rightarrow> string" where
  "hyphen_sub (a # b # c # cs) =
     (if is_name_letter a \<and> b = CHR ''-'' \<and> is_space c then a # '' - '' @ hyphen_sub cs
      else a # hyphen_sub (b # c # cs))"
| "hyphen_sub [a, b] = [a, b]"
| "hyphen_sub [a] = [a]"
| "hyphen_sub [] = []"

text \<open>
  \<^verbatim>\<open>while re.search(...): product_name = re.sub(...)\<close>. Nothing bounds the loop, so it is a
  partial function: \<open>None\<close> is the loop that never exits, \<open>Some name\<close> the name it exits
  with.
\<close>

partial_function (option) hyphen_loop :: "string \<Rightarrow> string option" where
  "hyphen_loop product_name =
     (if letter_hyphen product_name then hyphen_loop (hyphen_sub product_name)
      else Some product_name)"

text \<open>A hyphen behind a letter is dangling when no whitespace follows it: the
  substitution leaves it alone, and the loop condition keeps finding it.\<close>

fun dangling_hyphen :: "string \<Rightarrow> bool" where
  "dangling_hyphen (a # b # c # cs) \<longleftrightarrow>
     (is_name_letter a \<and> b = CHR ''-'' \<and> \<not> is_space c) \<or> dangling_hyphen (b # c # cs)"
| "dangling_hyphen [a, b] \<longleftrightarrow> is_name_letter a \<and> b = CHR ''-''"
| "dangling_hyphen [a] \<longleftrightarrow> False"
| "dangling_hyphen [] \<longleftrightarrow> False"

section \<open>search_product_id_on_gog\<close>

text \<open>
  The answer of the public search, \<^verbatim>\<open>download_data(gog_url, product_name=...)\<close>: the count
  \<^verbatim>\<open>totalGamesFound\<close> and the list \<^verbatim>\<open>products\<close>, each product with its \<^verbatim>\<open>id\<close> and \<^verbatim>\<open>title\<close>. The
  remote catalog is a function from the name searched to the answer, \<open>None\<close> when the
  request fails.
\<close>

record product =
  product_ident :: int
  title :: string

record gog_info =
  totalGamesFound :: int
  products :: "product list"

type_synonym catalog = "string \<Rightarrow> gog_info option"

text \<open>
  The loop over the roman numerals in gog_installer_update_checker.py:
  \<^verbatim>\<open>
  for numeral in DATA.Roman_Numerals:
      if numeral in product_name.split():
          found_numeral = True
          product_name = re.sub(f"\b{numeral}\b", str(DATA.Roman_Numerals[numeral]), product_name, 1)
  \<close>
  The pattern is an f-string that is not a raw string, so each \<^verbatim>\<open>\b\<close> in it is the
  backspace character U+0008, not the word boundary of regular expressions: the pattern
  matches the numeral between two backspace characters. A numeral made of letters and
  digits stands for itself in a pattern, which is what \<open>replace_first\<close> models.
\<close>

fun roman_numerals_loop :: "(string, int) dict \<Rightarrow> bool \<Rightarrow> string \<Rightarrow> bool \<times> string" where
  "roman_numerals_loop [] found_numeral product_name = (found_numeral, product_name)"
| "roman_numerals_loop ((roman, decimal) # rest) found_numeral product_name =
     (if roman \<in> set (py_split product_name)
      then roman_numerals_loop rest True
             (replace_first (CHR 0x08 # roman @ [CHR 0x08]) (str_of_int decimal) product_name)
      else roman_numerals_loop rest found_numeral product_name)"

text \<open>
  The same loop in main.py:
  \<^verbatim>\<open>product_name = product_name.replace(numeral, str(ROMAN_NUMERALS[numeral]))\<close>.
\<close>

fun roman_numerals_loop_main :: "(string, int) dict \<Rightarrow> bool \<Rightarrow> string \<Rightarrow> bool \<times> string" where
  "roman_numerals_loop_main [] found_numeral product_name = (found_numeral, product_name)"
| "roman_numerals_loop_main ((roman, decimal) # rest) found_numeral product_name =
     (if roman \<in> set (py_split product_name)
      then roman_numerals_loop_main rest True
             (py_replace roman (str_of_int decimal) product_name)
      else roman_numerals_loop_main rest found_numeral product_name)"

text \<open>The branches of \<^verbatim>\<open>search_product_id_on_gog\<close> that do not search again.\<close>

definition pick_product :: "gog_info \<Rightarrow> string \<Rightarrow> py_error + string option" where
  "pick_product info product_name =
     (if totalGamesFound info = 1
      then (case products info of
              [] \<Rightarrow> Inl IndexError
            | p # _ \<Rightarrow> Inr (Some (str_of_int (product_ident p))))
      else (case find (\<lambda>p. py_lower product_name = py_lower (title p)) (products info) of
              Some p \<Rightarrow> Inr (Some (str_of_int (product_ident p)))
            | None \<Rightarrow> Inr None))"

text \<open>
  \<^verbatim>\<open>search_product_id_on_gog\<close> calls itself after the numeral loop. The first argument
  after the data is the number of nested calls the interpreter still allows; a call beyond
  it raises \<^verbatim>\<open>RecursionError\<close>. The result comes with the names searched, in order.
  \<open>Roman_Numerals\<close> is \<open>None\<close> when the data file has no such entry.
\<close>

fun search_product_id_on_gog ::
  "catalog \<Rightarrow> (string, int) dict option \<Rightarrow> nat \<Rightarrow> string \<Rightarrow> (py_error + string option) \<times> string list"
where
  "search_product_id_on_gog download_data Roman_Numerals 0 product_name =
     (Inl RecursionError, [])"
| "search_product_id_on_gog download_data Roman_Numerals (Suc depth) product_name =
     (case download_data product_name of
        None \<Rightarrow> (Inr None, [product_name])
      | Some info \<Rightarrow>
          if totalGamesFound info = 0
          then (case Roman_Numerals of
                  None \<Rightarrow> (Inr None, [product_name])
                | Some numerals \<Rightarrow>
                    (case roman_numerals_loop numerals False product_name of
                       (True, new_name) \<Rightarrow>
                         (case search_product_id_on_gog download_data Roman_Numerals depth new_name of
                            (result, searched) \<Rightarrow> (result, product_name # searched))
                     | (False, new_name) \<Rightarrow> (Inr None, [product_name])))
          else (pick_product info product_name, [product_name]))"

fun search_product_id_on_gog_main ::
  "catalog \<Rightarrow> (string, int) dict \<Rightarrow> nat \<Rightarrow> string \<Rightarrow> (py_error + string option) \<times> string list"
where
  "search_product_id_on_gog_main download_data ROMAN_NUMERALS 0 product_name =
     (Inl RecursionError, [])"
| "search_product_id_on_gog_main download_data ROMAN_NUMERALS (Suc depth) product_name =
     (case download_data product_name of
        None \<Rightarrow> (Inr None, [product_name])
      | Some info \<Rightarrow>
          if totalGamesFound info = 0
          then (case roman_numerals_loop_main ROMAN_NUMERALS False product_name of
                  (True, new_name) \<Rightarrow>
                    (case search_product_id_on_gog_main download_data ROMAN_NUMERALS depth new_name of
                       (result, searched) \<Rightarrow> (result, product_name # searched))
                | (False, new_name) \<Rightarrow> (Inr None, [product_name]))
          else (pick_product info product_name, [product_name]))"

text \<open>A catalog that finds no game, whatever the name.\<close>

definition nothing_found :: catalog where
  "nothing_found = (\<lambda>product_name. Some \<lparr>totalGamesFound = 0, products = []\<rparr>)"

section \<open>is_main_game\<close>

text \<open>
  The three keys of the info file that \<^verbatim>\<open>is_main_game\<close> reads with \<^verbatim>\<open>installer_info.get\<close>.
  \<open>Goodies_ID\<close> is the dictionary of the data file, \<open>None\<close> when the data file has no such
  entry (in main.py it is always a dictionary, empty by default).
\<close>

record installer_info =
  dependencyGameId :: jval
  gameId :: jval
  rootGameId :: jval

definition is_main_game :: "(string, string) dict option \<Rightarrow> installer_info \<Rightarrow> bool" where
  "is_main_game Goodies_ID info =
     (if dependencyGameId info \<noteq> JNull
      then (if dependencyGameId info \<noteq> JStr [] then False else True)
      else if gameId info \<noteq> rootGameId info then False
      else (case Goodies_ID of
              Some goodies \<Rightarrow>
                (if py_str (rootGameId info) \<in> set (map fst goodies) then False else True)
            | None \<Rightarrow> True))"

section \<open>The records that are compared\<close>

text \<open>
  An entry of \<^verbatim>\<open>local_info\<close>, with the keys that \<^verbatim>\<open>get_local_info_from_exe\<close> and
  \<^verbatim>\<open>insert_missing_info\<close> set; \<open>None\<close> is Python's \<^verbatim>\<open>None\<close>.
\<close>

record local_installer_info =
  product_id :: string
  build_id :: "string option"
  product_name :: "string option"
  old_version :: bool
  version_name :: "string option"

text \<open>
  An entry of \<^verbatim>\<open>online_info\<close>, as \<^verbatim>\<open>load_online_data\<close> stores it under the product id: the keys
  \<^verbatim>\<open>version_name\<close>, \<^verbatim>\<open>build_id\<close> and \<^verbatim>\<open>old_version\<close> (here with the prefix \<open>latest\<close>). All
  three are \<open>None\<close> when the product was not found.
\<close>

record online_installer_info =
  latest_version_name :: "string option"
  latest_build_id :: "string option"
  latest_old_version :: "bool option"

definition not_found_online :: online_installer_info where
  "not_found_online =
     \<lparr>latest_version_name = None, latest_build_id = None, latest_old_version = None\<rparr>"

text \<open>
  An entry of \<^verbatim>\<open>new_versions_dict\<close>. A build is an \<^verbatim>\<open>int\<close> after \<^verbatim>\<open>compare_new_versions\<close>
  converted it, and otherwise the string of the record or \<^verbatim>\<open>"Unknown"\<close>.
\<close>

datatype build = Build_int int | Build_str string

record new_version =
  found_product_name :: "string option"
  local_version :: string
  local_build :: build
  local_old_version :: bool
  online_version :: "string option"
  online_build :: build
  online_old_version :: bool

text \<open>The messages that the comparison functions log, by the call that writes them.\<close>

datatype log_msg =
    Build_newer
  | Build_not_newer
  | Cannot_compare
  | Group_not_a_list
  | Group_not_two_elements
  | Versions_assumed_same
  | Version_newer
  | Version_not_newer
  | Not_found_online
  | No_repository_data
  | Old_gen_update

datatype log_level = INFO | ERROR

definition level_of :: "log_msg \<Rightarrow> log_level" where
  "level_of m =
     (if m \<in> {Cannot_compare, Group_not_a_list, Group_not_two_elements} then ERROR else INFO)"

text \<open>
  What the comparison functions change: \<^verbatim>\<open>new_versions_dict\<close>, the log, and the remote
  lookups by build id that \<^verbatim>\<open>get_local_version_from_gog\<close> made (build id and product id of
  each). Output of \<^verbatim>\<open>print\<close> is left out.
\<close>

record compare_state =
  new_versions_dict :: "(string, new_version) dict"
  log :: "log_msg list"
  lookups :: "(string \<times> string) list"

definition initial_state :: compare_state where
  "initial_state = \<lparr>new_versions_dict = [], log = [], lookups = []\<rparr>"

definition logged :: "log_msg list \<Rightarrow> compare_state \<Rightarrow> compare_state" where
  "logged msgs st = st\<lparr>log := log st @ msgs\<rparr>"

section \<open>versions_should_match\<close>

text \<open>
  \<^verbatim>\<open>MATCH_VERSIONS[product_id]\<close> is a list; main.py takes each element that is a list of two
  values as a group and logs an error for any other element.
  gog_installer_update_checker.py has no such checks: there the data file is validated
  when it is loaded, and every group is a pair of strings, \<open>Group [JStr a, JStr b]\<close>.
\<close>

datatype version_group = Group "jval list" | Not_a_list

fun match_groups :: "version_group list \<Rightarrow> jval \<Rightarrow> jval \<Rightarrow> bool \<times> log_msg list" where
  "match_groups [] local_version' online_version' = (False, [])"
| "match_groups (Not_a_list # groups) local_version' online_version' =
     (case match_groups groups local_version' online_version' of
        (res, msgs) \<Rightarrow> (res, Group_not_a_list # msgs))"
| "match_groups (Group version_list # groups) local_version' online_version' =
     (if length version_list \<noteq> 2
      then (case match_groups groups local_version' online_version' of
              (res, msgs) \<Rightarrow> (res, Group_not_two_elements # msgs))
      else if online_version' \<in> set version_list \<and> local_version' \<in> set version_list
      then (True, [Versions_assumed_same])
      else match_groups groups local_version' online_version')"

definition jval_of :: "string option \<Rightarrow> jval" where
  "jval_of x = (case x of None \<Rightarrow> JNull | Some s \<Rightarrow> JStr s)"

definition versions_should_match ::
  "(string, version_group list) dict \<Rightarrow> string \<Rightarrow> string \<Rightarrow> string option \<Rightarrow> bool \<times> log_msg list"
where
  "versions_should_match MATCH_VERSIONS pid local_version' online_version' =
     (case map_of MATCH_VERSIONS pid of
        None \<Rightarrow> (False, [])
      | Some groups \<Rightarrow> match_groups groups (JStr local_version') (jval_of online_version'))"

section \<open>compare_new_versions\<close>

text \<open>
  Variables that share their name with a key of \<^verbatim>\<open>new_versions_dict\<close> carry a prime.
  \<open>get_local_version_from_gog\<close> is the remote lookup of a version by build id and product
  id, \<open>None\<close> when the request fails or no build has that id.
  \<^verbatim>\<open>normalize_version_name(online_version)\<close> raises \<^verbatim>\<open>TypeError\<close> when the online version is
  \<^verbatim>\<open>None\<close>, since \<^verbatim>\<open>re.match\<close> takes no \<^verbatim>\<open>None\<close>; nothing in \<^verbatim>\<open>compare_new_versions\<close> or its
  callers catches it.
\<close>

text \<open>A remote side on which every lookup by build id fails.\<close>

definition no_lookup :: "string \<Rightarrow> string \<Rightarrow> string option" where
  "no_lookup build product = None"

definition updated_entry ::
  "local_installer_info \<Rightarrow> string \<Rightarrow> build \<Rightarrow> string option \<Rightarrow> build \<Rightarrow> new_version" where
  "updated_entry l lv lb ov ob =
     \<lparr>found_product_name = product_name l, local_version = lv, local_build = lb,
      local_old_version = False, online_version = ov, online_build = ob,
      online_old_version = False\<rparr>"

definition build_of :: "int option \<Rightarrow> build" where
  "build_of b = (case b of None \<Rightarrow> Build_str UNKNOWN | Some n \<Rightarrow> Build_int n)"

definition compare_builds ::
  "(string \<Rightarrow> string \<Rightarrow> string option) \<Rightarrow> local_installer_info \<Rightarrow> online_installer_info \<Rightarrow>
   int \<Rightarrow> int \<Rightarrow> compare_state \<Rightarrow> compare_state" where
  "compare_builds get_local_version_from_gog l oi online_build' local_build' st =
     (if online_build' > local_build'
      then (let unknown = (version_name l = None \<or> version_name l = Some UNKNOWN);
                looked_up = (if unknown
                             then get_local_version_from_gog (str_of_int local_build') (product_id l)
                             else version_name l);
                lv = (case looked_up of None \<Rightarrow> UNKNOWN | Some v \<Rightarrow> v)
            in st\<lparr>new_versions_dict :=
                    AList.update (product_id l)
                      (updated_entry l lv (Build_int local_build') (latest_version_name oi)
                         (Build_int online_build'))
                      (new_versions_dict st),
                  log := log st @ [Build_newer],
                  lookups := lookups st @
                    (if unknown then [(str_of_int local_build', product_id l)] else [])\<rparr>)
      else logged [Build_not_newer] st)"

definition compare_names ::
  "(string, version_group list) dict \<Rightarrow> local_installer_info \<Rightarrow> online_installer_info \<Rightarrow>
   int option \<Rightarrow> int option \<Rightarrow> compare_state \<Rightarrow> py_error + compare_state" where
  "compare_names MATCH_VERSIONS l oi online_build' local_build' st =
     (case version_name l of
        None \<Rightarrow> Inr (logged [Cannot_compare] st)
      | Some lv \<Rightarrow>
          if lv = UNKNOWN then Inr (logged [Cannot_compare] st)
          else (case versions_should_match MATCH_VERSIONS (product_id l) lv (latest_version_name oi) of
                  (True, msgs) \<Rightarrow> Inr (logged msgs st)
                | (False, msgs) \<Rightarrow>
                    (case latest_version_name oi of
                       None \<Rightarrow> Inl TypeError
                     | Some ov \<Rightarrow>
                         if py_lower (normalize_version_name lv) \<noteq> py_lower (normalize_version_name ov)
                         then Inr (st\<lparr>new_versions_dict :=
                                      AList.update (product_id l)
                                        (updated_entry l lv (build_of local_build') (Some ov)
                                           (build_of online_build'))
                                        (new_versions_dict st),
                                    log := log st @ msgs @ [Version_newer]\<rparr>)
                         else Inr (logged (msgs @ [Version_not_newer]) st))))"

definition compare_new_versions ::
  "(string, version_group list) dict \<Rightarrow> (string \<Rightarrow> string \<Rightarrow> string option) \<Rightarrow>
   local_installer_info \<Rightarrow> (string, online_installer_info) dict \<Rightarrow> compare_state \<Rightarrow>
   py_error + compare_state" where
  "compare_new_versions MATCH_VERSIONS get_local_version_from_gog l online_info st =
     (case map_of online_info (product_id l) of
        None \<Rightarrow> Inl KeyError
      | Some oi \<Rightarrow>
          (case int_or_unknown (latest_build_id oi) of
             Inl e \<Rightarrow> Inl e
           | Inr online_build' \<Rightarrow>
               (case int_or_unknown (build_id l) of
                  Inl e \<Rightarrow> Inl e
                | Inr local_build' \<Rightarrow>
                    (case (online_build', local_build') of
                       (Some ob, Some lb) \<Rightarrow>
                         Inr (compare_builds get_local_version_from_gog l oi ob lb st)
                     | _ \<Rightarrow> compare_names MATCH_VERSIONS l oi online_build' local_build' st))))"

section \<open>compare_old_versions\<close>

definition or_unknown :: "string option \<Rightarrow> string" where
  "or_unknown x = (case x of None \<Rightarrow> UNKNOWN | Some s \<Rightarrow> s)"

definition old_entry :: "local_installer_info \<Rightarrow> online_installer_info \<Rightarrow> bool \<Rightarrow> new_version" where
  "old_entry l oi online_old =
     \<lparr>found_product_name = product_name l,
      local_version = or_unknown (version_name l),
      local_build = Build_str (or_unknown (build_id l)),
      local_old_version = True,
      online_version = Some (or_unknown (latest_version_name oi)),
      online_build = Build_str (or_unknown (latest_build_id oi)),
      online_old_version = online_old\<rparr>"

definition compare_old_versions ::
  "(string, version_group list) dict \<Rightarrow> local_installer_info \<Rightarrow>
   (string, online_installer_info) dict \<Rightarrow> compare_state \<Rightarrow> py_error + compare_state" where
  "compare_old_versions MATCH_VERSIONS l online_info st =
     (case map_of online_info (product_id l) of
        None \<Rightarrow> Inl KeyError
      | Some oi \<Rightarrow>
          (case latest_old_version oi of
             None \<Rightarrow> Inr (logged [Not_found_online] st)
           | Some True \<Rightarrow>
               if or_unknown (latest_version_name oi) = UNKNOWN
               then Inr (logged [No_repository_data] st)
               else (case versions_should_match MATCH_VERSIONS (product_id l)
                            (or_unknown (version_name l))
                            (Some (or_unknown (latest_version_name oi))) of
                       (True, msgs) \<Rightarrow> Inr (logged msgs st)
                     | (False, msgs) \<Rightarrow>
                         if or_unknown (latest_version_name oi) \<noteq> or_unknown (version_name l)
                         then Inr (st\<lparr>new_versions_dict :=
                                      AList.update (product_id l) (old_entry l oi True)
                                        (new_versions_dict st),
                                    log := log st @ msgs @ [Version_newer]\<rparr>)
                         else Inr (logged (msgs @ [Version_not_newer]) st))
           | Some False \<Rightarrow>
               Inr (st\<lparr>new_versions_dict :=
                        AList.update (product_id l) (old_entry l oi False) (new_versions_dict st),
                      log := log st @ [Old_gen_update]\<rparr>)))"

section \<open>sort_local_info and compare_versions\<close>

text \<open>The items of a dictionary in the sorted order of its keys.\<close>

definition sorted_items :: "('k::linorder, 'v) dict \<Rightarrow> ('k \<times> 'v) list" where
  "sorted_items d = sorted_copy d"

text \<open>
  The first loop of \<^verbatim>\<open>sort_local_info\<close>:
  \<^verbatim>\<open>for installer in sorted(local_info): installer_name_map[product_name] = installer\<close>.
\<close>

fun name_map_loop ::
  "(string \<times> local_installer_info) list \<Rightarrow> (string option, string) dict \<Rightarrow>
   (string option, string) dict" where
  "name_map_loop [] installer_name_map = installer_name_map"
| "name_map_loop ((installer, info) # rest) installer_name_map =
     name_map_loop rest (AList.update (product_name info) installer installer_name_map)"

text \<open>
  \<^verbatim>\<open>sorted(installer_name_map)\<close> sorts product names. Python orders strings, but comparing
  \<^verbatim>\<open>None\<close> with a string raises \<^verbatim>\<open>TypeError\<close>, which any sort of two or more keys with a
  \<^verbatim>\<open>None\<close> among them must do.
\<close>

definition sorted_names :: "string option list \<Rightarrow> py_error + string option list" where
  "sorted_names names =
     (if None \<in> set names
      then (if length names \<le> 1 then Inr names else Inl TypeError)
      else Inr (map Some (sort (List.map_filter id names))))"

text \<open>
  The second loop:
  \<^verbatim>\<open>installer = installer_name_map[prod_name]; sorted_local_info.update({installer: local_info[installer]})\<close>.
\<close>

fun collect_loop ::
  "(string, local_installer_info) dict \<Rightarrow> (string option, string) dict \<Rightarrow> string option list \<Rightarrow>
   (string, local_installer_info) dict \<Rightarrow> py_error + (string, local_installer_info) dict" where
  "collect_loop local_info installer_name_map [] sorted_local_info = Inr sorted_local_info"
| "collect_loop local_info installer_name_map (prod_name # rest) sorted_local_info =
     (case map_of installer_name_map prod_name of
        None \<Rightarrow> Inl KeyError
      | Some installer \<Rightarrow>
          (case map_of local_info installer of
             None \<Rightarrow> Inl KeyError
           | Some info \<Rightarrow>
               collect_loop local_info installer_name_map rest
                 (AList.update installer info sorted_local_info)))"

definition sort_local_info ::
  "(string, local_installer_info) dict \<Rightarrow> py_error + (string, local_installer_info) dict" where
  "sort_local_info local_info =
     (let installer_name_map = name_map_loop (sorted_items local_info) []
      in case sorted_names (map fst installer_name_map) of
           Inl e \<Rightarrow> Inl e
         | Inr names \<Rightarrow> collect_loop local_info installer_name_map names [])"

text \<open>The loop of \<^verbatim>\<open>compare_versions\<close> over the sorted records; an exception ends it.\<close>

fun compare_loop ::
  "(string, version_group list) dict \<Rightarrow> (string \<Rightarrow> string \<Rightarrow> string option) \<Rightarrow>
   (string, online_installer_info) dict \<Rightarrow> (string \<times> local_installer_info) list \<Rightarrow>
   compare_state \<Rightarrow> py_error + compare_state" where
  "compare_loop MATCH_VERSIONS get_local_version_from_gog online_info [] st = Inr st"
| "compare_loop MATCH_VERSIONS get_local_version_from_gog online_info ((installer, info) # rest) st =
     (case (if old_version info
            then compare_old_versions MATCH_VERSIONS info online_info st
            else compare_new_versions MATCH_VERSIONS get_local_version_from_gog info online_info st) of
        Inl e \<Rightarrow> Inl e
      | Inr st' \<Rightarrow> compare_loop MATCH_VERSIONS get_local_version_from_gog online_info rest st')"

definition compare_versions ::
  "(string, version_group list) dict \<Rightarrow> (string \<Rightarrow> string \<Rightarrow> string option) \<Rightarrow>
   (string, local_installer_info) dict \<Rightarrow> (string, online_installer_info) dict \<Rightarrow>
   py_error + (string, new_version) dict" where
  "compare_versions MATCH_VERSIONS get_local_version_from_gog local_info online_info =
     (case sort_local_info local_info of
        Inl e \<Rightarrow> Inl e
      | Inr sorted_local_info \<Rightarrow>
          (case compare_loop MATCH_VERSIONS get_local_version_from_gog online_info sorted_local_info
                  initial_state of
             Inl e \<Rightarrow> Inl e
           | Inr st \<Rightarrow> Inr (new_versions_dict st)))"

section \<open>Deduplication keeps the smallest path of every product id\<close>

lemma find_sorted_least:
  "sorted xs \<Longrightarrow> find P xs = Some x \<Longrightarrow> y \<in> set xs \<Longrightarrow> P y \<Longrightarrow> x \<le> y"
  by (induction xs) (auto split: if_splits)

lemma find_Some_mem: "find P xs = Some x \<Longrightarrow> x \<in> set xs \<and> P x"
  by (induction xs) (auto split: if_splits)

lemma first_path_Some:
  assumes "distinct (map fst d)" and "first_path d i = Some p"
  shows "(p, i) \<in> set d \<and> (\<forall>q. (q, i) \<in> set d \<longrightarrow> p \<le> q)"
proof -
  from assms(2) have m: "p \<in> set (sorted_keys d) \<and> map_of d p = Some i"
    unfolding first_path_def by (rule find_Some_mem)
  then have "(p, i) \<in> set d" by (simp add: map_of_SomeD)
  moreover have "p \<le> q" if "(q, i) \<in> set d" for q
  proof -
    from that assms(1) have "map_of d q = Some i" by simp
    moreover from that have "q \<in> set (sorted_keys d)"
      by (force simp: sorted_keys_def)
    ultimately show ?thesis
      using find_sorted_least [of "sorted_keys d" _ p q] assms(2)
      unfolding first_path_def by (simp add: sorted_keys_def)
  qed
  ultimately show ?thesis by blast
qed

lemma first_path_exists:
  assumes "distinct (map fst d)" and "i \<in> snd ` set d"
  shows "\<exists>p. first_path d i = Some p"
proof -
  from assms(2) obtain q where q: "(q, i) \<in> set d" by force
  with assms(1) have "map_of d q = Some i" by simp
  moreover from q have "q \<in> set (sorted_keys d)" by (force simp: sorted_keys_def)
  ultimately have "find (\<lambda>p. map_of d p = Some i) (sorted_keys d) \<noteq> None"
    by (auto simp: find_None_iff)
  then show ?thesis unfolding first_path_def by auto
qed

lemma scan_until_found_Some:
  "first_path d i \<noteq> None \<Longrightarrow> scan_until_found d i = first_path d i"
  by (subst scan_until_found.simps) (auto split: option.splits)

lemma first_path_cong_set:
  assumes "distinct (map fst d)" "distinct (map fst d')" "set d' = set d"
  shows "first_path d' i = first_path d i"
proof -
  have "map_of d' = map_of d"
    using assms by (intro map_of_inject_set [THEN iffD2]) auto
  moreover have "sorted_keys d' = sorted_keys d"
    unfolding sorted_keys_def
  proof (rule sorted_distinct_set_unique)
    show "set (sort (map fst d')) = set (sort (map fst d))"
      using assms(3) by simp
  qed (use assms in auto)
  ultimately show ?thesis by (simp add: first_path_def)
qed

lemma dedup_loop_Some:
  assumes "distinct (map fst d)" and "set ids \<subseteq> snd ` set d"
  shows "\<exists>r. dedup_loop d ids aux = Some r \<and>
           (distinct (map fst aux) \<longrightarrow> distinct (map fst r)) \<and>
           (\<forall>p. map_of r p =
              (if \<exists>i\<in>set ids. first_path d i = Some p then map_of d p else map_of aux p))"
  using assms(2)
proof (induction ids arbitrary: aux)
  case Nil
  then show ?case by simp
next
  case (Cons i ids)
  from Cons.prems have "i \<in> snd ` set d" by simp
  from first_path_exists [OF assms(1) this]
  obtain p0 where p0: "first_path d i = Some p0" ..
  from first_path_Some [OF assms(1) p0] assms(1)
  have d0: "map_of d p0 = Some i" by simp
  let ?aux = "AList.update p0 i aux"
  from Cons.prems have "set ids \<subseteq> snd ` set d" by simp
  from Cons.IH [OF this, of ?aux]
  obtain r where r: "dedup_loop d ids ?aux = Some r"
    and rd: "distinct (map fst ?aux) \<longrightarrow> distinct (map fst r)"
    and rm: "\<forall>p. map_of r p =
      (if \<exists>j\<in>set ids. first_path d j = Some p then map_of d p else map_of ?aux p)"
    by (elim exE conjE)
  have "dedup_loop d (i # ids) aux = Some r"
    using r p0 by (simp add: scan_until_found_Some)
  moreover have "distinct (map fst aux) \<longrightarrow> distinct (map fst r)"
    using rd by (simp add: distinct_update)
  moreover have "map_of r p =
      (if \<exists>j\<in>set (i # ids). first_path d j = Some p then map_of d p else map_of aux p)" for p
  proof (cases "\<exists>j\<in>set ids. first_path d j = Some p")
    case True
    with rm show ?thesis by simp
  next
    case False
    show ?thesis
    proof (cases "p = p0")
      case True
      with False rm p0 d0 show ?thesis by (simp add: update_conv')
    next
      case np: False
      with p0 have "first_path d i \<noteq> Some p" by simp
      with False np rm show ?thesis by (simp add: update_conv')
    qed
  qed
  ultimately show ?case by (intro exI conjI allI)
qed

lemma sorted_copy_keys:
  "map fst (sorted_copy aux) = sorted_keys aux"
proof -
  have "map fst (List.map_filter (\<lambda>k. map_option (Pair k) (map_of aux k)) ks) = ks"
    if "set ks \<subseteq> fst ` set aux" for ks
    using that
  proof (induction ks)
    case Nil
    then show ?case by simp
  next
    case (Cons k ks)
    then have "map_of aux k \<noteq> None" by (simp add: map_of_eq_None_iff)
    then obtain v where "map_of aux k = Some v" by blast
    with Cons show ?case by simp
  qed
  then show ?thesis
    by (simp add: sorted_copy_def sorted_keys_def)
qed

lemma map_filter_Pair_set: "set (List.map_filter (\<lambda>k. map_option (Pair k) (f k)) ks)
          = {(k, v). k \<in> set ks \<and> f k = Some v}"
proof (induction ks)
  case Nil
  show ?case by simp
next
  case (Cons k ks)
  show ?case
  proof (cases "f k")
    case None
    with Cons show ?thesis by auto
  next
    case (Some v)
    with Cons show ?thesis by auto
  qed
qed

lemma sorted_copy_set:
  "set (sorted_copy aux) = {(k, v). map_of aux k = Some v}"
proof -
  have "set (sorted_copy aux) = {(k, v). k \<in> fst ` set aux \<and> map_of aux k = Some v}"
    unfolding sorted_copy_def sorted_keys_def map_filter_Pair_set by simp
  moreover have "k \<in> fst ` set aux" if "map_of aux k = Some v" for k v
      using map_of_SomeD [OF that] by force
  ultimately show ?thesis by blast
qed

lemma dedup_installers_id_set:
  assumes "distinct (map fst d)" and "set ids \<subseteq> snd ` set d"
  shows "\<exists>r. dedup_installers_id d ids = Some r \<and> sorted (map fst r) \<and> distinct (map fst r) \<and>
           set r = {(p, i). i \<in> set ids \<and> first_path d i = Some p}"
proof -
  from dedup_loop_Some [OF assms, of "[]"]
  obtain r0 where r0: "dedup_loop d ids [] = Some r0"
    and d0: "distinct (map fst r0)"
    and m0: "\<And>p. map_of r0 p = (if \<exists>i\<in>set ids. first_path d i = Some p then map_of d p else None)"
    by auto
  have "dedup_installers_id d ids = Some (sorted_copy r0)"
    by (simp add: dedup_installers_id_def r0)
  moreover have "sorted (map fst (sorted_copy r0))"
    by (simp add: sorted_copy_keys sorted_keys_def)
  moreover have "distinct (map fst (sorted_copy r0))"
    using d0 by (simp add: sorted_copy_keys sorted_keys_def)
  moreover have "set (sorted_copy r0) = {(p, i). i \<in> set ids \<and> first_path d i = Some p}"
  proof -
    have "map_of r0 p = Some i \<longleftrightarrow> i \<in> set ids \<and> first_path d i = Some p" for p i
    proof
      assume "map_of r0 p = Some i"
      with m0 [of p] obtain j where j: "j \<in> set ids" "first_path d j = Some p"
        and "map_of d p = Some i" by (auto split: if_splits)
      moreover from first_path_Some [OF assms(1) j(2)] assms(1) have "map_of d p = Some j"
        by simp
      ultimately show "i \<in> set ids \<and> first_path d i = Some p" by simp
    next
      assume a: "i \<in> set ids \<and> first_path d i = Some p"
      then have "first_path d i = Some p" ..
      from first_path_Some [OF assms(1) this] assms(1) have "map_of d p = Some i" by simp
      with a m0 [of p] show "map_of r0 p = Some i" by auto
    qed
    then show ?thesis by (simp add: sorted_copy_set)
  qed
  ultimately show ?thesis by blast
qed

lemma dedup_example: "dedup_installers_id [(''b'', ''1''), (''a'', ''1''), (''c'', ''2'')] [''2'', ''1'']
  = Some [(''a'', ''1''), (''c'', ''2'')]"
  by (simp add: dedup_installers_id_def scan_until_found_Some first_path_def sorted_keys_def sorted_copy_def)

text \<open>The sorted id list of main.py is one of the iteration orders.\<close>

lemma id_list_main_enumerates:
  "distinct (id_list_main d) \<and> set (id_list_main d) = snd ` set d"
  by (simp add: id_list_main_def)

text \<open>
  Claim C8. For a path-to-id dictionary (distinct paths) and any iteration order of its set
  of ids, \<open>dedup_installers_id\<close> returns a dictionary, sorted by path, that holds every
  id exactly once, each under the smallest path mapped to that id; the result is the same
  for every insertion order of the dictionary and every iteration order of the id set.
\<close>

theorem dedup_installers_id_smallest_path:
  assumes "distinct (map fst d)" and "distinct ids" and "set ids = snd ` set d"
  shows "\<exists>r. dedup_installers_id d ids = Some r
           \<and> sorted (map fst r) \<and> distinct (map fst r)
           \<and> distinct (map snd r) \<and> snd ` set r = snd ` set d
           \<and> (\<forall>(p, i) \<in> set r. (p, i) \<in> set d \<and> (\<forall>q. (q, i) \<in> set d \<longrightarrow> p \<le> q))
           \<and> (\<forall>d' ids'. distinct (map fst d') \<and> set d' = set d \<and>
                         distinct ids' \<and> set ids' = set ids
                  \<longrightarrow> dedup_installers_id d' ids' = Some r)"
proof -
  from assms(3) have sub: "set ids \<subseteq> snd ` set d" by simp
  from dedup_installers_id_set [OF assms(1) sub]
  obtain r where r: "dedup_installers_id d ids = Some r"
    and so: "sorted (map fst r)" and di: "distinct (map fst r)"
    and se: "set r = {(p, i). i \<in> set ids \<and> first_path d i = Some p}"
    by blast
  have inj: "inj_on snd (set r)"
    unfolding se by (auto simp: inj_on_def)
  have "distinct r" using di by (rule distinct_map [THEN iffD1, THEN conjunct1])
  with inj have ds: "distinct (map snd r)" by (simp add: distinct_map)
  have im: "snd ` set r = snd ` set d"
  proof -
    have "\<exists>p. first_path d i = Some p" if "i \<in> set ids" for i
    proof -
      from that assms(3) have "i \<in> snd ` set d" by simp
      from first_path_exists [OF assms(1) this] show ?thesis .
    qed
    then have "snd ` set r = set ids" unfolding se by force
    with assms(3) show ?thesis by simp
  qed
  have le: "\<forall>(p, i) \<in> set r. (p, i) \<in> set d \<and> (\<forall>q. (q, i) \<in> set d \<longrightarrow> p \<le> q)"
  proof -
    have *: "(p, i) \<in> set d \<and> (\<forall>q. (q, i) \<in> set d \<longrightarrow> p \<le> q)" if "(p, i) \<in> set r" for p i
    proof -
      from that have "first_path d i = Some p" unfolding se by simp
      from first_path_Some [OF assms(1) this] show ?thesis .
    qed
    show ?thesis
    proof (intro ballI)
      fix x assume "x \<in> set r"
      then have "(fst x, snd x) \<in> set r" by simp
      from * [OF this]
      show "case x of (p, i) \<Rightarrow> (p, i) \<in> set d \<and> (\<forall>q. (q, i) \<in> set d \<longrightarrow> p \<le> q)"
        by (simp add: split_beta)
    qed
  qed
  have ind: "dedup_installers_id d' ids' = Some r"
    if h: "distinct (map fst d') \<and> set d' = set d \<and> distinct ids' \<and> set ids' = set ids"
    for d' ids'
  proof -
    from h assms(3) have sub': "set ids' \<subseteq> snd ` set d'" by simp
    from h have d': "distinct (map fst d')" by simp
    from dedup_installers_id_set [OF d' sub']
    obtain r' where r': "dedup_installers_id d' ids' = Some r'"
      and so': "sorted (map fst r')" and di': "distinct (map fst r')"
      and se': "set r' = {(p, i). i \<in> set ids' \<and> first_path d' i = Some p}"
      by blast
    have "first_path d' i = first_path d i" for i
      using first_path_cong_set [OF assms(1) d'] h by simp
    with se' se h have eq: "set r' = set r" by simp
    have "inj_on fst (set r' \<union> set r)"
      using di by (simp add: eq distinct_map)
    from map_sorted_distinct_set_unique [OF this so' di' so di eq]
    have "r' = r" .
    with r' show ?thesis by simp
  qed
  from r so di ds im le ind show ?thesis by blast
qed

text \<open>The hypotheses of C8 hold for two copies of product 1 and one installer of product 2.\<close>

theorem dedup_installers_id_smallest_path_witness:
  "distinct (map fst [(''b'', ''1''), (''a'', ''1''), (''c'', ''2'')])
   \<and> distinct [''2'', ''1'']
   \<and> set [''2'', ''1''] = snd ` set [(''b'', ''1''), (''a'', ''1''), (''c'', ''2'')]
   \<and> (\<exists>r. dedup_installers_id [(''b'', ''1''), (''a'', ''1''), (''c'', ''2'')] [''2'', ''1''] = Some r
           \<and> sorted (map fst r) \<and> distinct (map snd r)
           \<and> snd ` set r = snd ` set [(''b'', ''1''), (''a'', ''1''), (''c'', ''2'')])"
proof -
  have h1: "distinct (map fst [(''b'', ''1''), (''a'', ''1''), (''c'', ''2'')])" by simp
  have h2: "distinct [''2'', ''1'']" by simp
  have h3: "set [''2'', ''1''] = snd ` set [(''b'', ''1''), (''a'', ''1''), (''c'', ''2'')]"
    by (simp add: insert_commute)
  from dedup_installers_id_smallest_path [OF h1 h2 h3]
  obtain r where "dedup_installers_id [(''b'', ''1''), (''a'', ''1''), (''c'', ''2'')] [''2'', ''1''] = Some r"
    and "sorted (map fst r)" and "distinct (map snd r)"
    and "snd ` set r = snd ` set [(''b'', ''1''), (''a'', ''1''), (''c'', ''2'')]"
    by (elim exE conjE)
  then have "\<exists>r. dedup_installers_id [(''b'', ''1''), (''a'', ''1''), (''c'', ''2'')] [''2'', ''1''] = Some r
           \<and> sorted (map fst r) \<and> distinct (map snd r)
           \<and> snd ` set r = snd ` set [(''b'', ''1''), (''a'', ''1''), (''c'', ''2'')]"
    by (intro exI conjI)
  with h1 h2 h3 show ?thesis by (intro conjI)
qed

section \<open>normalize_version_name: fixed points and the second pass\<close>

lemma py_replace_char:
  "py_replace [a] [b] s = map (\<lambda>c. if c = a then b else c) s"
  by (induction s) simp_all

lemma strip_periods_subset: "set (strip_periods s) \<subseteq> set s"
proof (induction s rule: strip_periods.induct)
  case (1 s)
  show ?case
  proof (cases "s \<noteq> [] \<and> last s = CHR ''.''")
    case True
    with 1 have "set (strip_periods (butlast s)) \<subseteq> set (butlast s)" by simp
    moreover have "set (butlast s) \<subseteq> set s" by (auto dest: in_set_butlastD)
    moreover from True have "strip_periods s = strip_periods (butlast s)"
      by (subst strip_periods.simps) simp
    ultimately show ?thesis by simp
  next
    case False
    then have "strip_periods s = s" by (subst strip_periods.simps) auto
    then show ?thesis by simp
  qed
qed

lemma strip_periods_no_period:
  "strip_periods s = [] \<or> last (strip_periods s) \<noteq> CHR ''.''"
proof (induction s rule: strip_periods.induct)
  case (1 s)
  show ?case
  proof (cases "s \<noteq> [] \<and> last s = CHR ''.''")
    case True
    then have "strip_periods s = strip_periods (butlast s)"
      by (subst strip_periods.simps) simp
    with 1 True show ?thesis by simp
  next
    case False
    then have "strip_periods s = s" by (subst strip_periods.simps) auto
    with False show ?thesis by auto
  qed
qed

lemma strip_periods_id:
  "s = [] \<or> last s \<noteq> CHR ''.'' \<Longrightarrow> strip_periods s = s"
  by (subst strip_periods.simps) auto

lemma normalize_version_name_no_underscore:
  "CHR ''_'' \<notin> set (normalize_version_name s)"
proof -
  have "CHR ''_'' \<notin> set (py_replace ''_'' '' '' t)" for t
    by (auto simp: py_replace_char)
  with strip_periods_subset show ?thesis
    unfolding normalize_version_name_def by blast
qed

lemma normalize_version_name_no_period:
  "normalize_version_name s = [] \<or> last (normalize_version_name s) \<noteq> CHR ''.''"
  unfolding normalize_version_name_def by (rule strip_periods_no_period)

lemma newline_is_space: "is_space (CHR 0x0A)"
  by (simp add: is_space_def)

lemma line_body_id: "s = [] \<or> \<not> is_space (last s) \<Longrightarrow> line_body s = s"
  using newline_is_space by (auto simp: line_body_def)

lemma strip_leading_id:
  assumes "s = [] \<or> (\<not> is_space (last s) \<and> hd s \<noteq> c)"
  shows "strip_leading c s = s"
proof -
  from assms have "line_body s = s" by (auto intro: line_body_id)
  with assms have "\<not> leading_match c s" by (auto simp: leading_match_def)
  then show ?thesis by (subst strip_leading.simps) simp
qed

lemma strip_trailing_id:
  assumes "s = [] \<or> (\<not> is_space (last s) \<and> last s \<noteq> c)"
  shows "strip_trailing c s = s"
proof -
  from assms have "line_body s = s" by (auto intro: line_body_id)
  with assms have "\<not> trailing_match c s" by (auto simp: trailing_match_def)
  then show ?thesis by (subst strip_trailing.simps) simp
qed

lemma foldl_id: "(\<And>c. c \<in> set cs \<Longrightarrow> f r c = r) \<Longrightarrow> foldl f r cs = r"
  by (induction cs) simp_all

lemma dropWhile_hd_id: "xs = [] \<or> \<not> P (hd xs) \<Longrightarrow> dropWhile P xs = xs"
  by (cases xs) auto

lemma py_strip_id:
  assumes "s = [] \<or> (\<not> is_space (hd s) \<and> \<not> is_space (last s))"
  shows "py_strip s = s"
proof -
  from assms have 1: "dropWhile is_space s = s"
    by (intro dropWhile_hd_id) auto
  from assms have "rev s = [] \<or> \<not> is_space (hd (rev s))"
    by (auto simp: hd_rev)
  then have "dropWhile is_space (rev s) = rev s"
    by (rule dropWhile_hd_id)
  with 1 show ?thesis by (simp add: py_strip_def)
qed

lemma normalize_version_name_fixed_point:
  assumes ends: "r \<noteq> [] \<Longrightarrow>
        \<not> is_space (hd r) \<and> hd r \<notin> set illegal_characters \<and>
        \<not> is_space (last r) \<and> last r \<notin> set illegal_characters"
    and under: "CHR ''_'' \<notin> set r"
    and period: "r = [] \<or> last r \<noteq> CHR ''.''"
  shows "normalize_version_name r = r"
proof -
  have step: "strip_trailing c (strip_leading c r) = r" if "c \<in> set illegal_characters" for c
  proof -
    from ends that have "r = [] \<or> (\<not> is_space (last r) \<and> hd r \<noteq> c)" by auto
    then have "strip_leading c r = r" by (rule strip_leading_id)
    moreover from ends that have "r = [] \<or> (\<not> is_space (last r) \<and> last r \<noteq> c)" by auto
    then have "strip_trailing c r = r" by (rule strip_trailing_id)
    ultimately show ?thesis by simp
  qed
  have 1: "foldl (\<lambda>n c. strip_trailing c (strip_leading c n)) r illegal_characters = r"
    by (rule foldl_id) (rule step)
  from ends have "r = [] \<or> (\<not> is_space (hd r) \<and> \<not> is_space (last r))" by auto
  then have 2: "py_strip r = r" by (rule py_strip_id)
  from under have "map (\<lambda>c. if c = CHR ''_'' then CHR '' '' else c) r = r"
    by (induction r) auto
  then have 3: "py_replace ''_'' '' '' r = r"
    by (simp add: py_replace_char)
  from period have 4: "strip_periods r = r" by (rule strip_periods_id)
  show ?thesis by (simp add: normalize_version_name_def 1 2 3 4)
qed

text \<open>
  Claim C3, as amended. A second pass of \<open>normalize_version_name\<close> changes nothing
  whenever the result of the first pass neither starts nor ends with a whitespace
  character or one of the nine illegal characters (an empty result included).
\<close>

theorem normalize_version_name_idempotent_clean_ends:
  assumes "normalize_version_name s \<noteq> [] \<longrightarrow>
        \<not> is_space (hd (normalize_version_name s)) \<and>
        hd (normalize_version_name s) \<notin> set illegal_characters \<and>
        \<not> is_space (last (normalize_version_name s)) \<and>
        last (normalize_version_name s) \<notin> set illegal_characters"
  shows "normalize_version_name (normalize_version_name s) = normalize_version_name s"
  using assms normalize_version_name_no_underscore [of s] normalize_version_name_no_period [of s]
  by (intro normalize_version_name_fixed_point) simp_all

text \<open>
  Claim C3, as stated, fails: the characters are purged in the order of the tuple, each
  once, so \<^verbatim>\<open>"!#1"\<close> loses its \<^verbatim>\<open>!\<close> after \<^verbatim>\<open>#\<close> has had its turn; the first pass
  gives \<^verbatim>\<open>"#1"\<close> and the second \<^verbatim>\<open>"1"\<close>.
\<close>

theorem normalize_version_name_not_idempotent:
  "normalize_version_name (normalize_version_name ''!#1'') \<noteq> normalize_version_name ''!#1''"
  by code_simp

lemma normalize_version_name_examples:
  "normalize_version_name ''!#1'' = ''#1''"
  "normalize_version_name ''#1'' = ''1''"
  "normalize_version_name ''1.0#.'' = ''1.0#''"
  "normalize_version_name ''_1.0_'' = '' 1.0 ''"
  by code_simp+

text \<open>The hypothesis of C3 holds for \<^verbatim>\<open>"#v1_2."\<close>, whose normal form is \<^verbatim>\<open>"v1 2"\<close>.\<close>

theorem normalize_version_name_idempotent_clean_ends_witness:
  "normalize_version_name ''#v1_2.'' = ''v1 2'' \<and>
   normalize_version_name (normalize_version_name ''#v1_2.'') = normalize_version_name ''#v1_2.''"
proof -
  have v: "normalize_version_name ''#v1_2.'' = ''v1 2''" by code_simp
  have "\<not> is_space CHR ''v'' \<and> CHR ''v'' \<notin> set illegal_characters \<and>
        \<not> is_space CHR ''2'' \<and> CHR ''2'' \<notin> set illegal_characters"
    by (simp add: is_space_def illegal_characters_def)
  with v normalize_version_name_idempotent_clean_ends [of "''#v1_2.''"]
  show ?thesis by simp
qed

section \<open>The hyphen loop exits only when no hyphen is left dangling\<close>

lemma not_letter_hyphen_char: "\<not> is_name_letter (CHR ''-'')"
  by (simp add: is_name_letter_def)

lemma not_letter_blank: "\<not> is_name_letter (CHR '' '')"
  by (simp add: is_name_letter_def)

lemma not_letter_space: "is_space c \<Longrightarrow> \<not> is_name_letter c"
  by (auto simp: is_space_def is_name_letter_def)

lemma letter_hyphen_skip: "\<not> is_name_letter x \<Longrightarrow> letter_hyphen (x # xs) = letter_hyphen xs"
  by (cases xs) auto

lemma dangling_hyphen_skip: "\<not> is_name_letter x \<Longrightarrow> dangling_hyphen (x # xs) = dangling_hyphen xs"
  by (cases xs rule: dangling_hyphen.cases) auto

lemma hyphen_sub_hd: "\<exists>ys. hyphen_sub (x # xs) = x # ys"
  by (cases "x # xs" rule: hyphen_sub.cases) auto

lemma letter_hyphen_sub_Cons:
  "letter_hyphen (a # hyphen_sub (b # cs)) \<longleftrightarrow>
     (is_name_letter a \<and> b = CHR ''-'') \<or> letter_hyphen (hyphen_sub (b # cs))"
proof -
  obtain ys where "hyphen_sub (b # cs) = b # ys" using hyphen_sub_hd by blast
  then show ?thesis by simp
qed

lemma dangling_hyphen_sub_Cons:
  "dangling_hyphen (a # hyphen_sub (b # c # cs)) \<longleftrightarrow>
     (is_name_letter a \<and> b = CHR ''-'' \<and> \<not> is_space c) \<or> dangling_hyphen (hyphen_sub (b # c # cs))"
proof (cases "is_name_letter b \<and> c = CHR ''-'' \<and> cs \<noteq> [] \<and> is_space (hd cs)")
  case True
  then obtain d ds where "cs = d # ds" by (cases cs) auto
  with True show ?thesis by (auto simp: not_letter_hyphen_char is_space_def)
next
  case False
  then have "\<exists>ys. hyphen_sub (b # c # cs) = b # c # ys"
  proof (cases cs)
    case Nil
    then show ?thesis by simp
  next
    case (Cons d ds)
    with False obtain ys where "hyphen_sub (c # d # ds) = c # ys"
      using hyphen_sub_hd by blast
    with Cons False show ?thesis by auto
  qed
  then obtain ys where "hyphen_sub (b # c # cs) = b # c # ys" by blast
  then show ?thesis by simp
qed

lemma dangling_hyphen_sub: "dangling_hyphen (hyphen_sub s) = dangling_hyphen s"
proof (induction s rule: hyphen_sub.induct)
  case (1 a b c cs)
  show ?case
  proof (cases "is_name_letter a \<and> b = CHR ''-'' \<and> is_space c")
    case True
    then have "hyphen_sub (a # b # c # cs) = a # '' - '' @ hyphen_sub cs" by simp
    moreover have "dangling_hyphen (a # '' - '' @ hyphen_sub cs) = dangling_hyphen (hyphen_sub cs)"
      by (simp add: dangling_hyphen_skip not_letter_blank not_letter_hyphen_char is_space_def)
    moreover from True have "dangling_hyphen (a # b # c # cs) = dangling_hyphen cs"
      by (simp add: dangling_hyphen_skip not_letter_hyphen_char not_letter_space)
    ultimately show ?thesis using 1(1) True by simp
  next
    case False
    then have "hyphen_sub (a # b # c # cs) = a # hyphen_sub (b # c # cs)" by auto
    with False 1(2) show ?thesis by (simp add: dangling_hyphen_sub_Cons)
  qed
qed simp_all

lemma letter_hyphen_after_sub: "letter_hyphen (hyphen_sub s) = dangling_hyphen s"
proof (induction s rule: hyphen_sub.induct)
  case (1 a b c cs)
  show ?case
  proof (cases "is_name_letter a \<and> b = CHR ''-'' \<and> is_space c")
    case True
    then have "hyphen_sub (a # b # c # cs) = a # '' - '' @ hyphen_sub cs" by simp
    moreover have "letter_hyphen (a # '' - '' @ hyphen_sub cs) = letter_hyphen (hyphen_sub cs)"
      by (simp add: letter_hyphen_skip not_letter_blank not_letter_hyphen_char)
    moreover from True have "dangling_hyphen (a # b # c # cs) = dangling_hyphen cs"
      by (simp add: dangling_hyphen_skip not_letter_hyphen_char not_letter_space)
    ultimately show ?thesis using 1(1) True by simp
  next
    case False
    then have "hyphen_sub (a # b # c # cs) = a # hyphen_sub (b # c # cs)" by auto
    with False 1(2) show ?thesis by (auto simp: letter_hyphen_sub_Cons)
  qed
qed simp_all

lemma dangling_letter_hyphen: "dangling_hyphen s \<Longrightarrow> letter_hyphen s"
  by (induction s rule: dangling_hyphen.induct) auto

lemma hyphen_sub_id: "\<not> letter_hyphen s \<Longrightarrow> hyphen_sub s = s"
  by (induction s rule: hyphen_sub.induct) auto

lemma hyphen_loop_dangling:
  assumes "hyphen_loop s = Some r"
  shows "\<not> dangling_hyphen s"
  using assms
proof (rule hyphen_loop.raw_induct [rotated 1, where P = "\<lambda>s r. \<not> dangling_hyphen s"])
  fix loop :: "string \<Rightarrow> string option" and s r
  assume ih: "\<And>x y. loop x = Some y \<Longrightarrow> \<not> dangling_hyphen x"
    and step: "(if letter_hyphen s then loop (hyphen_sub s) else Some s) = Some r"
  show "\<not> dangling_hyphen s"
  proof (cases "letter_hyphen s")
    case True
    with step have "loop (hyphen_sub s) = Some r" by simp
    then have "\<not> dangling_hyphen (hyphen_sub s)" by (rule ih)
    then show ?thesis by (simp add: dangling_hyphen_sub)
  next
    case False
    then show ?thesis using dangling_letter_hyphen by blast
  qed
qed

lemma hyphen_loop_result:
  "hyphen_loop s = (if dangling_hyphen s then None else Some (hyphen_sub s))"
proof (cases "dangling_hyphen s")
  case True
  then have "hyphen_loop s = None"
    using hyphen_loop_dangling [of s] by (cases "hyphen_loop s") auto
  with True show ?thesis by simp
next
  case False
  then have n: "\<not> letter_hyphen (hyphen_sub s)" by (simp add: letter_hyphen_after_sub)
  then have e: "hyphen_loop (hyphen_sub s) = Some (hyphen_sub s)"
    by (subst hyphen_loop.simps) simp
  have "hyphen_loop s = Some (hyphen_sub s)"
  proof (cases "letter_hyphen s")
    case True
    then show ?thesis using e by (subst hyphen_loop.simps) simp
  next
    case l: False
    then show ?thesis by (subst hyphen_loop.simps) (simp add: hyphen_sub_id)
  qed
  with False show ?thesis by simp
qed

lemma hyphen_loop_exit_idempotent:
  "hyphen_loop s = Some r \<Longrightarrow> hyphen_loop r = Some r"
proof -
  assume a: "hyphen_loop s = Some r"
  then have d: "\<not> dangling_hyphen s" by (rule hyphen_loop_dangling)
  with a have r: "r = hyphen_sub s" by (simp add: hyphen_loop_result)
  with d have "\<not> letter_hyphen r" by (simp add: letter_hyphen_after_sub)
  then show ?thesis by (subst hyphen_loop.simps) simp
qed

text \<open>
  Claim C2. The loop does not exit on \<^verbatim>\<open>"Spider-Man"\<close>: the condition finds \<^verbatim>\<open>r-\<close>, the
  substitution needs a whitespace character behind the hyphen and changes nothing, and
  the next round starts from the same name.
\<close>

theorem hyphen_loop_spider_man_never_exits:
  "letter_hyphen ''Spider-Man'' \<and> hyphen_sub ''Spider-Man'' = ''Spider-Man'' \<and>
   hyphen_loop ''Spider-Man'' = None"
proof -
  have "dangling_hyphen ''Spider-Man''"
    by (simp add: is_name_letter_def is_space_def)
  then have "hyphen_loop ''Spider-Man'' = None" by (simp add: hyphen_loop_result)
  moreover have "letter_hyphen ''Spider-Man''" by (simp add: is_name_letter_def)
  moreover have "hyphen_sub ''Spider-Man'' = ''Spider-Man''"
    by (simp add: is_name_letter_def is_space_def)
  ultimately show ?thesis by simp
qed

lemma hyphen_loop_example: "hyphen_loop ''Game- One'' = Some ''Game - One''"
  by (simp add: hyphen_loop_result is_name_letter_def is_space_def)

section \<open>The roman numeral retry\<close>

lemma replace_first_absent:
  "c \<notin> set s \<Longrightarrow> replace_first (c # pat) new s = s"
proof (induction s)
  case Nil
  then show ?case by simp
next
  case (Cons a s)
  then have "a \<noteq> c" and "c \<notin> set s" by auto
  with Cons.IH show ?case by simp
qed

text \<open>In gog_installer_update_checker.py a name without the backspace character comes
  out of the numeral loop as it went in, and the flag tells whether a numeral is one of
  its words.\<close>

lemma roman_numerals_loop_unchanged:
  assumes "CHR 0x08 \<notin> set name"
  shows "roman_numerals_loop numerals found name =
           (found \<or> (\<exists>roman \<in> fst ` set numerals. roman \<in> set (py_split name)),
            name)"
  using assms
proof (induction numerals arbitrary: found)
  case Nil
  then show ?case by simp
next
  case (Cons p numerals)
  obtain roman decimal where p: "p = (roman, decimal)" by (cases p)
  from Cons.prems
  have same: "replace_first (CHR 0x08 # roman @ [CHR 0x08]) (str_of_int decimal) name
                = name"
    by (rule replace_first_absent)
  show ?case
    using Cons.IH [OF Cons.prems, of True] Cons.IH [OF Cons.prems, of found]
    by (auto simp: p same)
qed

text \<open>So a search that finds nothing searches the same name again at every depth.\<close>

lemma search_product_id_on_gog_same_name:
  assumes "CHR 0x08 \<notin> set name"
    and "download_data name = Some info" and "totalGamesFound info = 0"
    and "\<exists>roman \<in> fst ` set numerals. roman \<in> set (py_split name)"
  shows "search_product_id_on_gog download_data (Some numerals) depth name
           = (Inl RecursionError, replicate depth name)"
proof (induction depth)
  case 0
  show ?case by simp
next
  case (Suc depth)
  from assms(1,4) have "roman_numerals_loop numerals False name = (True, name)"
    by (simp add: roman_numerals_loop_unchanged)
  with Suc assms(2,3) show ?case by simp
qed

text \<open>
  Claim C1. With the numerals \<^verbatim>\<open>{"II": 2}\<close> and a catalog that finds nothing,
  \<^verbatim>\<open>search_product_id_on_gog("Game II")\<close> of gog_installer_update_checker.py searches
  \<^verbatim>\<open>"Game II"\<close> again and again, never \<^verbatim>\<open>"Game 2"\<close>: whatever depth of calls is allowed, every
  call searches \<^verbatim>\<open>"Game II"\<close> and the outcome is \<^verbatim>\<open>RecursionError\<close>.
\<close>

theorem search_game_ii_retries_without_end:
  "search_product_id_on_gog nothing_found (Some [(''II'', 2)]) depth ''Game II''
     = (Inl RecursionError, replicate depth ''Game II'')"
proof (rule search_product_id_on_gog_same_name)
  show "CHR 0x08 \<notin> set ''Game II''" by simp
  show "nothing_found ''Game II'' = Some \<lparr>totalGamesFound = 0, products = []\<rparr>"
    by (simp add: nothing_found_def)
  show "totalGamesFound \<lparr>totalGamesFound = 0, products = []\<rparr> = 0" by simp
  have "py_split ''Game II'' = [''Game'', ''II'']" by code_simp
  then show "\<exists>roman \<in> fst ` set [(''II'', 2::int)]. roman \<in> set (py_split ''Game II'')" by simp
qed

text \<open>main.py replaces the numeral with \<^verbatim>\<open>str.replace\<close>: there the same search is retried
  once, as \<^verbatim>\<open>"Game 2"\<close>, and returns \<^verbatim>\<open>None\<close>.\<close>

lemma search_game_ii_main:
  "search_product_id_on_gog_main nothing_found [(''II'', 2)] (Suc (Suc depth)) ''Game II''
     = (Inr None, [''Game II'', ''Game 2''])"
proof -
  have 1: "roman_numerals_loop_main [(''II'', 2)] False ''Game II'' = (True, ''Game 2'')"
    by code_simp
  have 2: "roman_numerals_loop_main [(''II'', 2)] False ''Game 2'' = (False, ''Game 2'')"
    by code_simp
  show ?thesis by (simp add: nothing_found_def 1 2 del: roman_numerals_loop_main.simps)
qed

lemma roman_numerals_loop_game_ii:
  "roman_numerals_loop [(''II'', 2)] False ''Game II'' = (True, ''Game II'')"
  by code_simp

section \<open>The base game filter\<close>

text \<open>
  Claim C4, as stated, fails: an info file whose \<^verbatim>\<open>dependencyGameId\<close> is the empty string is
  taken for a main game at once, also when \<^verbatim>\<open>gameId\<close> and \<^verbatim>\<open>rootGameId\<close> differ.
\<close>

theorem is_main_game_empty_dependency_is_included:
  "is_main_game (Some [])
     \<lparr>dependencyGameId = JStr [], gameId = JStr ''1'', rootGameId = JStr ''2''\<rparr> = True"
  by (simp add: is_main_game_def)

text \<open>
  Claim C4, as amended. A \<^verbatim>\<open>dependencyGameId\<close> that is present and not the empty string
  excludes the installer; one that is the empty string includes it, whatever the other
  keys hold; with no \<^verbatim>\<open>dependencyGameId\<close>, a \<^verbatim>\<open>gameId\<close> different from \<^verbatim>\<open>rootGameId\<close> excludes
  it, and otherwise it is included unless \<^verbatim>\<open>str(rootGameId)\<close> is a key of the goodies.
\<close>

theorem is_main_game_rules:
  "(dependencyGameId info \<noteq> JNull \<and> dependencyGameId info \<noteq> JStr [] \<longrightarrow>
      \<not> is_main_game Goodies_ID info) \<and>
   (dependencyGameId info = JStr [] \<longrightarrow> is_main_game Goodies_ID info) \<and>
   (dependencyGameId info = JNull \<and> gameId info \<noteq> rootGameId info \<longrightarrow>
      \<not> is_main_game Goodies_ID info) \<and>
   (dependencyGameId info = JNull \<and> gameId info = rootGameId info \<longrightarrow>
      (is_main_game Goodies_ID info \<longleftrightarrow>
         (\<forall>goodies. Goodies_ID = Some goodies \<longrightarrow> py_str (rootGameId info) \<notin> fst ` set goodies)))"
  by (auto simp: is_main_game_def split: option.splits)

theorem is_main_game_rules_witness:
  "\<not> is_main_game None \<lparr>dependencyGameId = JStr ''5'', gameId = JStr ''1'', rootGameId = JStr ''1''\<rparr> \<and>
   is_main_game None \<lparr>dependencyGameId = JStr [], gameId = JStr ''1'', rootGameId = JStr ''2''\<rparr> \<and>
   \<not> is_main_game None \<lparr>dependencyGameId = JNull, gameId = JStr ''1'', rootGameId = JStr ''2''\<rparr> \<and>
   \<not> is_main_game (Some [(''7'', ''Soundtrack'')])
       \<lparr>dependencyGameId = JNull, gameId = JStr ''7'', rootGameId = JStr ''7''\<rparr> \<and>
   is_main_game (Some [(''7'', ''Soundtrack'')])
       \<lparr>dependencyGameId = JNull, gameId = JStr ''1'', rootGameId = JStr ''1''\<rparr>"
  using
    is_main_game_rules [of "\<lparr>dependencyGameId = JStr ''5'', gameId = JStr ''1'', rootGameId = JStr ''1''\<rparr>" None]
    is_main_game_rules [of "\<lparr>dependencyGameId = JStr [], gameId = JStr ''1'', rootGameId = JStr ''2''\<rparr>" None]
    is_main_game_rules [of "\<lparr>dependencyGameId = JNull, gameId = JStr ''1'', rootGameId = JStr ''2''\<rparr>" None]
    is_main_game_rules [of "\<lparr>dependencyGameId = JNull, gameId = JStr ''7'', rootGameId = JStr ''7''\<rparr>"
                           "Some [(''7'', ''Soundtrack'')]"]
    is_main_game_rules [of "\<lparr>dependencyGameId = JNull, gameId = JStr ''1'', rootGameId = JStr ''1''\<rparr>"
                           "Some [(''7'', ''Soundtrack'')]"]
  by (simp add: py_str_def)

section \<open>A legacy installer against a modern remote build\<close>

text \<open>
  Claim C7. For a local record of the old generation whose product was found online with
  a build of the current generation, \<^verbatim>\<open>compare_old_versions\<close> stores an entry under the
  product id, with \<^verbatim>\<open>local_old_version\<close> true and \<^verbatim>\<open>online_old_version\<close> false, whatever the
  versions and build ids are; \<^verbatim>\<open>compare_versions\<close> reaches it through the branch for
  \<^verbatim>\<open>old_version\<close> and goes on with the next record.
\<close>

theorem compare_old_versions_modern_remote:
  assumes "old_version l"
    and "map_of online_info (product_id l) = Some oi"
    and "latest_old_version oi = Some False"
  shows "\<exists>st' entry.
           compare_old_versions MATCH_VERSIONS l online_info st = Inr st' \<and>
           map_of (new_versions_dict st') (product_id l) = Some entry \<and>
           local_old_version entry \<and> \<not> online_old_version entry \<and>
           local_version entry = (case version_name l of None \<Rightarrow> UNKNOWN | Some v \<Rightarrow> v) \<and>
           online_version entry = Some (case latest_version_name oi of None \<Rightarrow> UNKNOWN | Some v \<Rightarrow> v) \<and>
           log st' = log st @ [Old_gen_update] \<and>
           compare_loop MATCH_VERSIONS lookup online_info ((installer, l) # rest) st
             = compare_loop MATCH_VERSIONS lookup online_info rest st'"
proof -
  let ?e = "old_entry l oi False"
  let ?st = "st\<lparr>new_versions_dict := AList.update (product_id l) ?e (new_versions_dict st),
                 log := log st @ [Old_gen_update]\<rparr>"
  have r: "compare_old_versions MATCH_VERSIONS l online_info st = Inr ?st"
    using assms(2,3) by (simp add: compare_old_versions_def)
  have m: "map_of (new_versions_dict ?st) (product_id l) = Some ?e"
    by (simp add: update_conv')
  have e: "local_old_version ?e \<and> \<not> online_old_version ?e \<and>
        local_version ?e = (case version_name l of None \<Rightarrow> UNKNOWN | Some v \<Rightarrow> v) \<and>
        online_version ?e = Some (case latest_version_name oi of None \<Rightarrow> UNKNOWN | Some v \<Rightarrow> v)"
    by (simp add: old_entry_def or_unknown_def)
  have l: "log ?st = log st @ [Old_gen_update]" by simp
  have c: "compare_loop MATCH_VERSIONS lookup online_info ((installer, l) # rest) st
             = compare_loop MATCH_VERSIONS lookup online_info rest ?st"
    using assms(1) r by simp
  from r m e l c show ?thesis by blast
qed

theorem compare_old_versions_modern_remote_witness:
  "\<exists>st' entry.
     compare_old_versions []
       \<lparr>product_id = ''1'', build_id = None, product_name = Some ''Game'', old_version = True,
        version_name = Some ''2.0''\<rparr>
       [(''1'', \<lparr>latest_version_name = Some ''1.0'', latest_build_id = Some ''5'',
                 latest_old_version = Some False\<rparr>)]
       \<lparr>new_versions_dict = [], log = [], lookups = []\<rparr> = Inr st' \<and>
     map_of (new_versions_dict st') ''1'' = Some entry \<and>
     local_old_version entry \<and> \<not> online_old_version entry"
proof -
  let ?l = "\<lparr>product_id = ''1'', build_id = None, product_name = Some ''Game'', old_version = True,
        version_name = Some ''2.0''\<rparr>"
  let ?oi = "\<lparr>latest_version_name = Some ''1.0'', latest_build_id = Some ''5'',
                 latest_old_version = Some False\<rparr>"
  have h1: "old_version ?l" by simp
  have h2: "map_of [(''1'', ?oi)] (product_id ?l) = Some ?oi" by simp
  have h3: "latest_old_version ?oi = Some False" by simp
  from compare_old_versions_modern_remote [OF h1 h2 h3, of "[]" "\<lparr>new_versions_dict = [], log = [], lookups = []\<rparr>"]
  obtain st' entry where
    "compare_old_versions [] ?l [(''1'', ?oi)] \<lparr>new_versions_dict = [], log = [], lookups = []\<rparr> = Inr st'"
    "map_of (new_versions_dict st') (product_id ?l) = Some entry"
    "local_old_version entry" "\<not> online_old_version entry"
    by blast
  then show ?thesis by auto
qed

section \<open>Modern installers: comparison by build id\<close>

lemma int_or_unknown_Some:
  "py_int s = Some n \<Longrightarrow> int_or_unknown (Some s) = Inr (Some n)"
  by (simp add: int_or_unknown_def)

text \<open>
  Claim C6. When the local and the remote build id are both present (and are integer
  numerals), \<^verbatim>\<open>compare_new_versions\<close> compares them as integers. A greater remote build
  stores an entry with both builds and both generations modern; its local version is the
  one of the record, or, when that is unknown, the answer of exactly one remote lookup by
  build id, or \<^verbatim>\<open>"Unknown"\<close> when the lookup fails. Otherwise nothing is stored and nothing
  is looked up.
\<close>

theorem compare_new_versions_by_build:
  assumes "map_of online_info (product_id l) = Some oi"
    and "latest_build_id oi = Some ob_str" and "py_int ob_str = Some ob"
    and "build_id l = Some lb_str" and "py_int lb_str = Some lb"
  shows "\<exists>st'. compare_new_versions MATCH_VERSIONS lookup l online_info st = Inr st' \<and>
     (if ob > lb
      then (\<exists>entry. map_of (new_versions_dict st') (product_id l) = Some entry \<and>
              found_product_name entry = product_name l \<and>
              local_build entry = Build_int lb \<and> online_build entry = Build_int ob \<and>
              \<not> local_old_version entry \<and> \<not> online_old_version entry \<and>
              online_version entry = latest_version_name oi \<and>
              (if version_name l = None \<or> version_name l = Some UNKNOWN
               then local_version entry =
                      (case lookup (str_of_int lb) (product_id l) of
                         None \<Rightarrow> UNKNOWN | Some v \<Rightarrow> v) \<and>
                    lookups st' = lookups st @ [(str_of_int lb, product_id l)]
               else version_name l = Some (local_version entry) \<and> lookups st' = lookups st))
      else new_versions_dict st' = new_versions_dict st \<and> lookups st' = lookups st \<and>
           log st' = log st @ [Build_not_newer])"
proof -
  let ?st = "compare_builds lookup l oi ob lb st"
  have r: "compare_new_versions MATCH_VERSIONS lookup l online_info st = Inr ?st"
    using assms by (simp add: compare_new_versions_def int_or_unknown_Some)
  show ?thesis
  proof (cases "ob > lb")
    case False
    then have "new_versions_dict ?st = new_versions_dict st \<and> lookups ?st = lookups st \<and>
           log ?st = log st @ [Build_not_newer]"
      by (simp add: compare_builds_def logged_def)
    with r False show ?thesis by simp
  next
    case True
    show ?thesis
    proof (cases "version_name l = None \<or> version_name l = Some UNKNOWN")
      case u: True
      let ?lv = "case lookup (str_of_int lb) (product_id l) of None \<Rightarrow> UNKNOWN | Some v \<Rightarrow> v"
      let ?e = "updated_entry l ?lv (Build_int lb) (latest_version_name oi) (Build_int ob)"
      from True u have "map_of (new_versions_dict ?st) (product_id l) = Some ?e"
        and "lookups ?st = lookups st @ [(str_of_int lb, product_id l)]"
        by (auto simp: compare_builds_def Let_def update_conv')
      with r True u show ?thesis
        by (intro exI [of _ ?st] conjI) (auto simp: updated_entry_def)
    next
      case k: False
      then obtain lv where lv: "version_name l = Some lv" "lv \<noteq> UNKNOWN" by auto
      let ?e = "updated_entry l lv (Build_int lb) (latest_version_name oi) (Build_int ob)"
      from True lv have "map_of (new_versions_dict ?st) (product_id l) = Some ?e"
        and "lookups ?st = lookups st"
        by (auto simp: compare_builds_def Let_def update_conv')
      with r True lv show ?thesis
        by (intro exI [of _ ?st] conjI) (auto simp: updated_entry_def)
    qed
  qed
qed

text \<open>The case of the specification: remote build 105, local build 100, local version
  unknown, and a lookup that fails.\<close>

theorem compare_new_versions_by_build_witness:
  "\<exists>st'. compare_new_versions [] no_lookup
       \<lparr>product_id = ''1'', build_id = Some ''100'', product_name = Some ''Game'',
        old_version = False, version_name = None\<rparr>
       [(''1'', \<lparr>latest_version_name = Some ''1.1'', latest_build_id = Some ''105'',
                 latest_old_version = Some False\<rparr>)]
       initial_state = Inr st' \<and>
     (\<exists>entry. map_of (new_versions_dict st') ''1'' = Some entry \<and>
        local_version entry = ''Unknown'' \<and>
        local_build entry = Build_int 100 \<and> online_build entry = Build_int 105 \<and>
        \<not> local_old_version entry \<and> \<not> online_old_version entry) \<and>
     lookups st' = [(''100'', ''1'')]"
proof -
  let ?l = "\<lparr>product_id = ''1'', build_id = Some ''100'', product_name = Some ''Game'',
        old_version = False, version_name = None\<rparr>"
  let ?oi = "\<lparr>latest_version_name = Some ''1.1'', latest_build_id = Some ''105'',
                 latest_old_version = Some False\<rparr>"
  have h1: "map_of [(''1'', ?oi)] (product_id ?l) = Some ?oi" by simp
  have h2: "latest_build_id ?oi = Some ''105''" by simp
  have h3: "py_int ''105'' = Some 105" by code_simp
  have h4: "build_id ?l = Some ''100''" by simp
  have h5: "py_int ''100'' = Some 100" by code_simp
  have s: "str_of_int 100 = ''100''" by code_simp
  from compare_new_versions_by_build [OF h1 h2 h3 h4 h5, of "[]" no_lookup initial_state]
  have "\<exists>st'. compare_new_versions [] no_lookup ?l [(''1'', ?oi)] initial_state = Inr st' \<and>
     (\<exists>entry. map_of (new_versions_dict st') ''1'' = Some entry \<and>
        local_build entry = Build_int 100 \<and> online_build entry = Build_int 105 \<and>
        \<not> local_old_version entry \<and> \<not> online_old_version entry \<and>
        local_version entry = ''Unknown'' \<and>
        lookups st' = lookups initial_state @ [(''100'', ''1'')])"
    by (simp add: s no_lookup_def UNKNOWN_def) blast
  then show ?thesis by (simp add: initial_state_def) blast
qed

section \<open>Modern installers: comparison by version name\<close>

lemma match_groups_iff:
  "fst (match_groups groups lv ov) \<longleftrightarrow>
     (\<exists>vs. Group vs \<in> set groups \<and> length vs = 2 \<and> ov \<in> set vs \<and> lv \<in> set vs)"
  by (induction groups lv ov rule: match_groups.induct) (auto split: prod.splits)

lemma versions_should_match_iff:
  "fst (versions_should_match MATCH_VERSIONS pid lv ov) \<longleftrightarrow>
     (\<exists>groups vs. map_of MATCH_VERSIONS pid = Some groups \<and> Group vs \<in> set groups \<and>
        length vs = 2 \<and> JStr lv \<in> set vs \<and> jval_of ov \<in> set vs)"
  by (auto simp: versions_should_match_def match_groups_iff split: option.splits)

text \<open>On the data that gog_installer_update_checker.py admits, where every group is a
  pair of strings, the two checks of main.py never fire and the answer is that of the
  newer file: some pair holds both versions.\<close>

lemma match_groups_pairs:
  "match_groups (map (\<lambda>(a, b). Group [JStr a, JStr b]) pairs) lv ov =
     (if \<exists>(a, b) \<in> set pairs. ov \<in> {JStr a, JStr b} \<and> lv \<in> {JStr a, JStr b}
      then (True, [Versions_assumed_same]) else (False, []))"
  by (induction pairs) (auto split: prod.splits)

text \<open>
  Claim C5, as stated, fails in main.py for a group of three versions: the group is
  skipped with an error, the names \<^verbatim>\<open>"1.2"\<close> and \<^verbatim>\<open>"1.2.0"\<close> are compared after normalization,
  and an update is stored.
\<close>

theorem compare_new_versions_group_of_three_reports_update:
  "compare_new_versions
     [(''1'', [Group [JStr ''1.2'', JStr ''1.2.0'', JStr ''1.2.1'']])] no_lookup
     \<lparr>product_id = ''1'', build_id = None, product_name = Some ''Game'', old_version = False,
      version_name = Some ''1.2''\<rparr>
     [(''1'', \<lparr>latest_version_name = Some ''1.2.0'', latest_build_id = None,
               latest_old_version = Some False\<rparr>)]
     initial_state
   = Inr \<lparr>new_versions_dict =
            [(''1'', \<lparr>found_product_name = Some ''Game'', local_version = ''1.2'',
                      local_build = Build_str ''Unknown'', local_old_version = False,
                      online_version = Some ''1.2.0'', online_build = Build_str ''Unknown'',
                      online_old_version = False\<rparr>)],
          log = [Group_not_two_elements, Version_newer], lookups = []\<rparr>"
proof -
  have n1: "normalize_version_name ''1.2'' = ''1.2''" by code_simp
  have n2: "normalize_version_name ''1.2.0'' = ''1.2.0''" by code_simp
  show ?thesis
    by (simp add: compare_new_versions_def compare_names_def int_or_unknown_def
        versions_should_match_def n1 n2 py_lower_def updated_entry_def build_of_def
        initial_state_def UNKNOWN_def)
qed

text \<open>
  Claim C5, as amended. When at least one of the two build ids is missing (and the other,
  if present, is an integer numeral): a record without a known local version is logged as
  an error and skipped; else, if the local and the remote version are both held by a
  configured group of exactly two values for the product id, nothing is stored; else, when
  the remote version is a string, both names are normalized and compared without regard
  to case, a difference storing an entry and equality storing nothing.
\<close>

theorem compare_new_versions_by_name:
  assumes "map_of online_info (product_id l) = Some oi"
    and "int_or_unknown (latest_build_id oi) = Inr ob"
    and "int_or_unknown (build_id l) = Inr lb"
    and "ob = None \<or> lb = None"
  shows
   "(version_name l = None \<or> version_name l = Some UNKNOWN \<longrightarrow>
       compare_new_versions MATCH_VERSIONS lookup l online_info st
         = Inr (st\<lparr>log := log st @ [Cannot_compare]\<rparr>) \<and> level_of Cannot_compare = ERROR) \<and>
    (\<forall>lv. version_name l = Some lv \<and> lv \<noteq> UNKNOWN \<longrightarrow>
       ((\<exists>groups vs. map_of MATCH_VERSIONS (product_id l) = Some groups \<and>
            Group vs \<in> set groups \<and> length vs = 2 \<and>
            JStr lv \<in> set vs \<and> jval_of (latest_version_name oi) \<in> set vs) \<longrightarrow>
        (\<exists>st'. compare_new_versions MATCH_VERSIONS lookup l online_info st = Inr st' \<and>
               new_versions_dict st' = new_versions_dict st \<and> lookups st' = lookups st)) \<and>
       (\<not> (\<exists>groups vs. map_of MATCH_VERSIONS (product_id l) = Some groups \<and>
            Group vs \<in> set groups \<and> length vs = 2 \<and>
            JStr lv \<in> set vs \<and> jval_of (latest_version_name oi) \<in> set vs) \<longrightarrow>
        (\<forall>ov. latest_version_name oi = Some ov \<longrightarrow>
           (\<exists>st'. compare_new_versions MATCH_VERSIONS lookup l online_info st = Inr st' \<and>
              lookups st' = lookups st \<and>
              (if py_lower (normalize_version_name lv) \<noteq> py_lower (normalize_version_name ov)
               then map_of (new_versions_dict st') (product_id l) =
                      Some \<lparr>found_product_name = product_name l, local_version = lv,
                            local_build = (case lb of None \<Rightarrow> Build_str UNKNOWN
                                           | Some n \<Rightarrow> Build_int n),
                            local_old_version = False, online_version = Some ov,
                            online_build = (case ob of None \<Rightarrow> Build_str UNKNOWN
                                            | Some n \<Rightarrow> Build_int n),
                            online_old_version = False\<rparr>
               else new_versions_dict st' = new_versions_dict st)))))"
proof -
  have r: "compare_new_versions MATCH_VERSIONS lookup l online_info st
             = compare_names MATCH_VERSIONS l oi ob lb st"
    using assms by (auto simp: compare_new_versions_def split: option.splits)
  have unknown: "compare_names MATCH_VERSIONS l oi ob lb st = Inr (st\<lparr>log := log st @ [Cannot_compare]\<rparr>)"
    if "version_name l = None \<or> version_name l = Some UNKNOWN"
    using that by (auto simp: compare_names_def logged_def)
  have lev: "level_of Cannot_compare = ERROR" by (simp add: level_of_def)
  have grouped: "\<exists>st'. compare_names MATCH_VERSIONS l oi ob lb st = Inr st' \<and>
               new_versions_dict st' = new_versions_dict st \<and> lookups st' = lookups st"
    if "version_name l = Some lv" "lv \<noteq> UNKNOWN"
      and "fst (versions_should_match MATCH_VERSIONS (product_id l) lv (latest_version_name oi))"
    for lv
  proof -
    from that(3) obtain msgs where
      "versions_should_match MATCH_VERSIONS (product_id l) lv (latest_version_name oi) = (True, msgs)"
      by (cases "versions_should_match MATCH_VERSIONS (product_id l) lv (latest_version_name oi)") auto
    with that(1,2) show ?thesis by (simp add: compare_names_def logged_def)
  qed
  have named: "\<exists>st'. compare_names MATCH_VERSIONS l oi ob lb st = Inr st' \<and>
              lookups st' = lookups st \<and>
              (if py_lower (normalize_version_name lv) \<noteq> py_lower (normalize_version_name ov)
               then map_of (new_versions_dict st') (product_id l) =
                      Some \<lparr>found_product_name = product_name l, local_version = lv,
                            local_build = (case lb of None \<Rightarrow> Build_str UNKNOWN
                                           | Some n \<Rightarrow> Build_int n),
                            local_old_version = False, online_version = Some ov,
                            online_build = (case ob of None \<Rightarrow> Build_str UNKNOWN
                                            | Some n \<Rightarrow> Build_int n),
                            online_old_version = False\<rparr>
               else new_versions_dict st' = new_versions_dict st)"
    if "version_name l = Some lv" "lv \<noteq> UNKNOWN"
      and "\<not> fst (versions_should_match MATCH_VERSIONS (product_id l) lv (latest_version_name oi))"
      and "latest_version_name oi = Some ov"
    for lv ov
  proof -
    from that(3) obtain msgs where
      "versions_should_match MATCH_VERSIONS (product_id l) lv (latest_version_name oi) = (False, msgs)"
      by (cases "versions_should_match MATCH_VERSIONS (product_id l) lv (latest_version_name oi)") auto
    with that(1,2,4) show ?thesis
      by (simp add: compare_names_def logged_def updated_entry_def build_of_def update_conv')
  qed
  show ?thesis
    unfolding r versions_should_match_iff [symmetric]
    using unknown lev grouped named by blast
qed

text \<open>The cases of the specification: no build ids, local \<^verbatim>\<open>"1.2"\<close>, remote \<^verbatim>\<open>"1.2.0"\<close>,
  with the group \<^verbatim>\<open>["1.2", "1.2.0"]\<close> and without it; and a record without a local version.\<close>

theorem compare_new_versions_by_name_witness:
  "(\<exists>st'. compare_new_versions [(''1'', [Group [JStr ''1.2'', JStr ''1.2.0'']])] no_lookup
            \<lparr>product_id = ''1'', build_id = None, product_name = Some ''Game'',
             old_version = False, version_name = Some ''1.2''\<rparr>
            [(''1'', \<lparr>latest_version_name = Some ''1.2.0'', latest_build_id = None,
                      latest_old_version = Some False\<rparr>)]
            initial_state = Inr st' \<and> new_versions_dict st' = []) \<and>
   (\<exists>st' entry. compare_new_versions [] no_lookup
            \<lparr>product_id = ''1'', build_id = None, product_name = Some ''Game'',
             old_version = False, version_name = Some ''1.2''\<rparr>
            [(''1'', \<lparr>latest_version_name = Some ''1.2.0'', latest_build_id = None,
                      latest_old_version = Some False\<rparr>)]
            initial_state = Inr st' \<and>
         map_of (new_versions_dict st') ''1'' = Some entry \<and>
         local_version entry = ''1.2'' \<and> online_version entry = Some ''1.2.0'') \<and>
   compare_new_versions [] no_lookup
      \<lparr>product_id = ''1'', build_id = Some ''100'', product_name = Some ''Game'',
       old_version = False, version_name = None\<rparr>
      [(''1'', \<lparr>latest_version_name = Some ''1.2.0'', latest_build_id = None,
                latest_old_version = Some False\<rparr>)]
      initial_state = Inr (initial_state\<lparr>log := [Cannot_compare]\<rparr>)"
proof -
  let ?l = "\<lparr>product_id = ''1'', build_id = None, product_name = Some ''Game'',
             old_version = False, version_name = Some ''1.2''\<rparr>"
  let ?m = "\<lparr>product_id = ''1'', build_id = Some ''100'', product_name = Some ''Game'',
       old_version = False, version_name = None\<rparr>"
  let ?oi = "\<lparr>latest_version_name = Some ''1.2.0'', latest_build_id = None,
                      latest_old_version = Some False\<rparr>"
  let ?mv = "[(''1'', [Group [JStr ''1.2'', JStr ''1.2.0'']])]"
  have h1: "map_of [(''1'', ?oi)] (product_id ?l) = Some ?oi" by simp
  have h2: "int_or_unknown (latest_build_id ?oi) = Inr None" by (simp add: int_or_unknown_def)
  have h3: "int_or_unknown (build_id ?l) = Inr None" by (simp add: int_or_unknown_def)
  have h4: "(None :: int option) = None \<or> (None :: int option) = None" by simp
  have h1': "map_of [(''1'', ?oi)] (product_id ?m) = Some ?oi" by simp
  have p: "py_int ''100'' = Some 100" by code_simp
  have h3': "int_or_unknown (build_id ?m) = Inr (Some 100)" by (simp add: int_or_unknown_def p)
  have h4': "(None :: int option) = None \<or> Some (100 :: int) = None" by simp
  have n1: "normalize_version_name ''1.2'' = ''1.2''" by code_simp
  have n2: "normalize_version_name ''1.2.0'' = ''1.2.0''" by code_simp
  have u: "''1.2'' \<noteq> UNKNOWN" by (simp add: UNKNOWN_def)
  have g: "\<exists>groups vs. map_of ?mv (product_id ?l) = Some groups \<and> Group vs \<in> set groups \<and>
            length vs = 2 \<and> JStr ''1.2'' \<in> set vs \<and> jval_of (latest_version_name ?oi) \<in> set vs"
    by (intro exI [of _ "[Group [JStr ''1.2'', JStr ''1.2.0'']]"] exI [of _ "[JStr ''1.2'', JStr ''1.2.0'']"])
       (simp add: jval_of_def)
  have ng: "\<not> (\<exists>groups vs. map_of [] (product_id ?l) = Some groups \<and> Group vs \<in> set groups \<and>
            length vs = 2 \<and> JStr ''1.2'' \<in> set vs \<and> jval_of (latest_version_name ?oi) \<in> set vs)"
    by simp
  have v: "version_name ?l = Some ''1.2'' \<and> ''1.2'' \<noteq> UNKNOWN"
    by (simp add: UNKNOWN_def)
  note with_group =
    compare_new_versions_by_name [where MATCH_VERSIONS = ?mv and lookup = no_lookup
      and st = initial_state, OF h1 h2 h3 h4, THEN conjunct2, rule_format, OF v,
      THEN conjunct1, rule_format, OF g]
  then have a: "\<exists>st'. compare_new_versions ?mv no_lookup ?l [(''1'', ?oi)] initial_state = Inr st' \<and>
             new_versions_dict st' = []"
    by (simp add: initial_state_def) blast
  have ov: "latest_version_name ?oi = Some ''1.2.0''" by simp
  note without_group =
    compare_new_versions_by_name [where MATCH_VERSIONS = "[]" and lookup = no_lookup
      and st = initial_state, OF h1 h2 h3 h4, THEN conjunct2, rule_format, OF v,
      THEN conjunct2, rule_format, OF ng ov]
  then obtain st' where s1:
    "compare_new_versions [] no_lookup ?l [(''1'', ?oi)] initial_state = Inr st'"
    and s2: "map_of (new_versions_dict st') ''1'' =
            Some \<lparr>found_product_name = Some ''Game'', local_version = ''1.2'',
                  local_build = Build_str UNKNOWN, local_old_version = False,
                  online_version = Some ''1.2.0'', online_build = Build_str UNKNOWN,
                  online_old_version = False\<rparr>"
    by (auto simp: n1 n2 py_lower_def)
  have b: "\<exists>st' entry. compare_new_versions [] no_lookup ?l [(''1'', ?oi)] initial_state = Inr st' \<and>
         map_of (new_versions_dict st') ''1'' = Some entry \<and>
         local_version entry = ''1.2'' \<and> online_version entry = Some ''1.2.0''"
  proof (intro exI conjI)
    show "compare_new_versions [] no_lookup ?l [(''1'', ?oi)] initial_state = Inr st'" by (fact s1)
    show "map_of (new_versions_dict st') ''1'' =
            Some \<lparr>found_product_name = Some ''Game'', local_version = ''1.2'',
                  local_build = Build_str UNKNOWN, local_old_version = False,
                  online_version = Some ''1.2.0'', online_build = Build_str UNKNOWN,
                  online_old_version = False\<rparr>" by (fact s2)
  qed simp_all
  have nv: "version_name ?m = None \<or> version_name ?m = Some UNKNOWN" by simp
  note no_version =
    compare_new_versions_by_name [where MATCH_VERSIONS = "[]" and lookup = no_lookup
      and st = initial_state, OF h1' h2 h3' h4', THEN conjunct1, rule_format, OF nv,
      THEN conjunct1]
  then have c: "compare_new_versions [] no_lookup ?m [(''1'', ?oi)] initial_state
             = Inr (initial_state\<lparr>log := [Cannot_compare]\<rparr>)"
    by (simp add: initial_state_def)
  from a b c show ?thesis by blast
qed

section \<open>A modern installer whose product was not found online\<close>

text \<open>
  With all three online fields \<^verbatim>\<open>None\<close> the remote build is unknown. A record with a known
  local version that no group equates with \<^verbatim>\<open>None\<close> then reaches
  \<^verbatim>\<open>normalize_version_name(online_version)\<close> with \<^verbatim>\<open>None\<close>, and the \<^verbatim>\<open>TypeError\<close> leaves
  \<^verbatim>\<open>compare_new_versions\<close>.
\<close>

lemma compare_new_versions_not_found_raises:
  assumes "map_of online_info (product_id l) = Some not_found_online"
    and "int_or_unknown (build_id l) = Inr lb"
    and "version_name l = Some lv" and "lv \<noteq> UNKNOWN"
    and "\<not> fst (versions_should_match MATCH_VERSIONS (product_id l) lv None)"
  shows "compare_new_versions MATCH_VERSIONS lookup l online_info st = Inl TypeError"
proof -
  from assms(5) obtain msgs where
    "versions_should_match MATCH_VERSIONS (product_id l) lv None = (False, msgs)"
    by (cases "versions_should_match MATCH_VERSIONS (product_id l) lv None") auto
  with assms(1-4) show ?thesis
    by (simp add: compare_new_versions_def compare_names_def not_found_online_def
        int_or_unknown_def split: option.splits)
qed

lemma compare_loop_raises:
  assumes "\<not> old_version info"
    and "compare_new_versions MATCH_VERSIONS lookup info online_info st = Inl e"
  shows "compare_loop MATCH_VERSIONS lookup online_info ((installer, info) # rest) st = Inl e"
  using assms by simp

text \<open>
  Claim C9. For the modern record of product 1 with local version \<^verbatim>\<open>"1.0"\<close> and build 100,
  and an online entry that says the product was not found, \<^verbatim>\<open>compare_new_versions\<close> raises
  \<^verbatim>\<open>TypeError\<close>, and so does \<^verbatim>\<open>compare_versions\<close> on the batch that holds a legacy record
  after it: the exception ends the batch, and the second record is never compared.
\<close>

theorem compare_new_versions_not_found_online_raises:
  "compare_new_versions [] no_lookup
     \<lparr>product_id = ''1'', build_id = Some ''100'', product_name = Some ''Game'',
      old_version = False, version_name = Some ''1.0''\<rparr>
     [(''1'', not_found_online),
      (''2'', \<lparr>latest_version_name = Some ''2.0'', latest_build_id = Some ''7'',
               latest_old_version = Some False\<rparr>)]
     initial_state = Inl TypeError
   \<and> compare_versions [] no_lookup
     [(''a.exe'', \<lparr>product_id = ''1'', build_id = Some ''100'', product_name = Some ''Game'',
                  old_version = False, version_name = Some ''1.0''\<rparr>),
      (''b_1.0.exe'', \<lparr>product_id = ''2'', build_id = None, product_name = Some ''Other'',
                  old_version = True, version_name = Some ''1.0''\<rparr>)]
     [(''1'', not_found_online),
      (''2'', \<lparr>latest_version_name = Some ''2.0'', latest_build_id = Some ''7'',
               latest_old_version = Some False\<rparr>)]
     = Inl TypeError"
proof -
  let ?l = "\<lparr>product_id = ''1'', build_id = Some ''100'', product_name = Some ''Game'',
      old_version = False, version_name = Some ''1.0''\<rparr>"
  let ?k = "\<lparr>product_id = ''2'', build_id = None, product_name = Some ''Other'',
                  old_version = True, version_name = Some ''1.0''\<rparr>"
  let ?online = "[(''1'', not_found_online),
      (''2'', \<lparr>latest_version_name = Some ''2.0'', latest_build_id = Some ''7'',
               latest_old_version = Some False\<rparr>)]"
  have p: "py_int ''100'' = Some 100" by code_simp
  have 1: "compare_new_versions [] no_lookup ?l ?online st = Inl TypeError" for st
    by (rule compare_new_versions_not_found_raises [where lb = "Some 100" and lv = "''1.0''"])
       (simp_all add: int_or_unknown_def p UNKNOWN_def versions_should_match_def)
  have 2: "sort_local_info [(''a.exe'', ?l), (''b_1.0.exe'', ?k)]
             = Inr [(''a.exe'', ?l), (''b_1.0.exe'', ?k)]"
    by code_simp
  have 3: "compare_loop [] no_lookup ?online [(''a.exe'', ?l), (''b_1.0.exe'', ?k)] initial_state
             = Inl TypeError"
    by (rule compare_loop_raises) (simp_all add: 1)
  show ?thesis by (simp add: 1 compare_versions_def 2 3)
qed

section \<open>sort_local_info keeps one installer per product name\<close>

lemma sorted_items_props:
  assumes "distinct (map fst d)"
  shows "set (sorted_items d) = set d"
    and "sorted (map fst (sorted_items d))"
    and "distinct (map fst (sorted_items d))"
proof -
  have "{(k, v). map_of d k = Some v} = set d"
    using assms by (auto dest: map_of_SomeD)
  then show "set (sorted_items d) = set d"
    by (simp add: sorted_items_def sorted_copy_set)
  show "sorted (map fst (sorted_items d))"
    by (simp add: sorted_items_def sorted_copy_keys sorted_keys_def)
  show "distinct (map fst (sorted_items d))"
    using assms by (simp add: sorted_items_def sorted_copy_keys sorted_keys_def)
qed

lemma name_map_loop_snoc:
  "name_map_loop (items @ [(k, i)]) m = AList.update (product_name i) k (name_map_loop items m)"
  by (induction items arbitrary: m) auto

lemma name_map_loop_keys:
  "fst ` set (name_map_loop items m) = fst ` set m \<union> (\<lambda>(k, i). product_name i) ` set items"
proof (induction items arbitrary: m)
  case Nil
  show ?case by simp
next
  case (Cons x items)
  obtain k i where x: "x = (k, i)" by (cases x)
  have "fst ` set (name_map_loop (x # items) m)
          = fst ` set (AList.update (product_name i) k m) \<union> (\<lambda>(k, i). product_name i) ` set items"
    using Cons.IH by (simp add: x)
  also have "fst ` set (AList.update (product_name i) k m) = {product_name i} \<union> fst ` set m"
    by (rule dom_update)
  finally show ?case by (simp add: x Un_commute insert_commute Un_left_commute)
qed

lemma name_map_loop_distinct:
  "distinct (map fst m) \<Longrightarrow> distinct (map fst (name_map_loop items m))"
  by (induction items arbitrary: m) (auto simp: distinct_update)

text \<open>The installers are visited in sorted order and a later one overwrites an earlier
  one with the same product name, so each name ends up with its greatest path.\<close>

lemma name_map_loop_greatest:
  assumes "sorted (map fst items)"
  shows "map_of (name_map_loop items []) n = Some k \<longleftrightarrow>
           (\<exists>i. (k, i) \<in> set items \<and> product_name i = n) \<and>
           (\<forall>(k', i') \<in> set items. product_name i' = n \<longrightarrow> k' \<le> k)"
  using assms
proof (induction items arbitrary: k rule: rev_induct)
  case Nil
  show ?case by simp
next
  case (snoc x items)
  obtain kx ix where x: "x = (kx, ix)" by (cases x)
  from snoc.prems have s: "sorted (map fst items)" and le: "\<forall>k' \<in> fst ` set items. k' \<le> kx"
    by (auto simp: x sorted_append)
  note ih = snoc.IH [OF s]
  show ?case
  proof (cases "product_name ix = n")
    case True
    have "map_of (name_map_loop (items @ [x]) []) n = Some k \<longleftrightarrow> k = kx"
      by (auto simp: x name_map_loop_snoc update_conv' True)
    moreover have "(\<exists>i. (k, i) \<in> set (items @ [x]) \<and> product_name i = n) \<and>
           (\<forall>(k', i') \<in> set (items @ [x]). product_name i' = n \<longrightarrow> k' \<le> k) \<longleftrightarrow> k = kx"
    proof
      assume a: "(\<exists>i. (k, i) \<in> set (items @ [x]) \<and> product_name i = n) \<and>
           (\<forall>(k', i') \<in> set (items @ [x]). product_name i' = n \<longrightarrow> k' \<le> k)"
      then have "kx \<le> k" using True by (auto simp: x)
      moreover from a le have "k \<le> kx" by (force simp: x)
      ultimately show "k = kx" by simp
    next
      assume "k = kx"
      with le True show "(\<exists>i. (k, i) \<in> set (items @ [x]) \<and> product_name i = n) \<and>
           (\<forall>(k', i') \<in> set (items @ [x]). product_name i' = n \<longrightarrow> k' \<le> k)"
        by (force simp: x)
    qed
    ultimately show ?thesis by simp
  next
    case False
    then have "map_of (name_map_loop (items @ [x]) []) n = map_of (name_map_loop items []) n"
      by (simp add: x name_map_loop_snoc update_conv')
    moreover from False have "(\<exists>i. (k, i) \<in> set (items @ [x]) \<and> product_name i = n) \<and>
           (\<forall>(k', i') \<in> set (items @ [x]). product_name i' = n \<longrightarrow> k' \<le> k) \<longleftrightarrow>
         (\<exists>i. (k, i) \<in> set items \<and> product_name i = n) \<and>
           (\<forall>(k', i') \<in> set items. product_name i' = n \<longrightarrow> k' \<le> k)"
      by (auto simp: x)
    ultimately show ?thesis using ih by simp
  qed
qed

lemma sorted_names_set:
  "sorted_names names = Inr ns \<Longrightarrow> set ns = set names"
proof -
  assume a: "sorted_names names = Inr ns"
  show ?thesis
  proof (cases "None \<in> set names")
    case True
    with a show ?thesis by (auto simp: sorted_names_def split: if_splits)
  next
    case False
    then have "Some ` set (List.map_filter id names) = set names"
      by (induction names) (auto simp: List.map_filter_simps split: option.splits)
    with a False show ?thesis by (auto simp: sorted_names_def)
  qed
qed

lemma sorted_names_total:
  "None \<notin> set names \<Longrightarrow> \<exists>ns. sorted_names names = Inr ns"
  by (simp add: sorted_names_def)

lemma collect_loop_Some:
  assumes "\<forall>n \<in> set ns. \<exists>k i. map_of nm n = Some k \<and> map_of li k = Some i"
  shows "\<exists>r. collect_loop li nm ns acc = Inr r \<and>
           (distinct (map fst acc) \<longrightarrow> distinct (map fst r)) \<and>
           (\<forall>k. map_of r k =
              (if \<exists>n \<in> set ns. map_of nm n = Some k then map_of li k else map_of acc k))"
  using assms
proof (induction ns arbitrary: acc)
  case Nil
  then show ?case by simp
next
  case (Cons n ns)
  from Cons.prems obtain k0 i0 where k0: "map_of nm n = Some k0" and i0: "map_of li k0 = Some i0"
    by auto
  let ?acc = "AList.update k0 i0 acc"
  from Cons.prems have "\<forall>n \<in> set ns. \<exists>k i. map_of nm n = Some k \<and> map_of li k = Some i"
    by simp
  from Cons.IH [OF this, of ?acc]
  obtain r where r: "collect_loop li nm ns ?acc = Inr r"
    and rd: "distinct (map fst ?acc) \<longrightarrow> distinct (map fst r)"
    and rm: "\<forall>k. map_of r k =
      (if \<exists>n \<in> set ns. map_of nm n = Some k then map_of li k else map_of ?acc k)"
    by (elim exE conjE)
  have "collect_loop li nm (n # ns) acc = Inr r"
    using r k0 i0 by simp
  moreover have "distinct (map fst acc) \<longrightarrow> distinct (map fst r)"
    using rd by (simp add: distinct_update)
  moreover have "map_of r k =
      (if \<exists>n' \<in> set (n # ns). map_of nm n' = Some k then map_of li k else map_of acc k)" for k
  proof (cases "\<exists>n' \<in> set ns. map_of nm n' = Some k")
    case True
    with rm show ?thesis by simp
  next
    case False
    show ?thesis
    proof (cases "k = k0")
      case True
      with False rm k0 i0 show ?thesis by (simp add: update_conv')
    next
      case nk: False
      with k0 have "map_of nm n \<noteq> Some k" by simp
      with False nk rm show ?thesis by (simp add: update_conv')
    qed
  qed
  ultimately show ?case by (intro exI conjI allI)
qed

lemma sort_local_info_result:
  assumes d: "distinct (map fst li)" and r: "sort_local_info li = Inr r"
  shows "set r = {(k, i). (k, i) \<in> set li \<and>
                    (\<forall>(k', i') \<in> set li. product_name i' = product_name i \<longrightarrow> k' \<le> k)}"
proof -
  let ?items = "sorted_items li"
  let ?nm = "name_map_loop ?items []"
  note it = sorted_items_props [OF d]
  from r obtain ns where ns: "sorted_names (map fst ?nm) = Inr ns"
    and c: "collect_loop li ?nm ns [] = Inr r"
    by (auto simp: sort_local_info_def Let_def split: sum.splits)
  from sorted_names_set [OF ns] have sn: "set ns = fst ` set ?nm" by simp
  have g: "map_of ?nm n = Some k \<longleftrightarrow>
             (\<exists>i. (k, i) \<in> set li \<and> product_name i = n) \<and>
             (\<forall>(k', i') \<in> set li. product_name i' = n \<longrightarrow> k' \<le> k)" for n k
    using name_map_loop_greatest [OF it(2), of n k] by (simp add: it(1))
  have pre: "\<forall>n \<in> set ns. \<exists>k i. map_of ?nm n = Some k \<and> map_of li k = Some i"
  proof
    fix n assume "n \<in> set ns"
    with sn have "map_of ?nm n \<noteq> None" by (simp add: map_of_eq_None_iff)
    then obtain k where k: "map_of ?nm n = Some k" by auto
    with g obtain i where "(k, i) \<in> set li" by blast
    with d have "map_of li k = Some i" by simp
    with k show "\<exists>k i. map_of ?nm n = Some k \<and> map_of li k = Some i" by blast
  qed
  from collect_loop_Some [OF pre, of "[]"] c
  have dr: "distinct (map fst r)"
    and mr: "\<And>k. map_of r k = (if \<exists>n \<in> set ns. map_of ?nm n = Some k then map_of li k else None)"
    by auto
  have inns: "n \<in> set ns" if "map_of ?nm n = Some k" for n k
  proof -
    from that have "map_of ?nm n \<noteq> None" by simp
    then show ?thesis by (simp add: sn map_of_eq_None_iff)
  qed
  have "(k, i) \<in> set r \<longleftrightarrow>
          (k, i) \<in> set li \<and> (\<forall>(k', i') \<in> set li. product_name i' = product_name i \<longrightarrow> k' \<le> k)"
    for k i
  proof
    assume "(k, i) \<in> set r"
    with dr have "map_of r k = Some i" by simp
    with mr [of k] obtain n where n: "map_of ?nm n = Some k" and l: "map_of li k = Some i"
      by (auto split: if_splits)
    from l have ki: "(k, i) \<in> set li" by (rule map_of_SomeD)
    from n g obtain i' where i': "(k, i') \<in> set li" "product_name i' = n"
      and mx: "\<forall>(k', i') \<in> set li. product_name i' = n \<longrightarrow> k' \<le> k"
      by blast
    from d ki i'(1) have "i' = i" by (metis map_of_is_SomeI option.inject)
    with ki i'(2) mx
    show "(k, i) \<in> set li \<and> (\<forall>(k', i') \<in> set li. product_name i' = product_name i \<longrightarrow> k' \<le> k)"
      by simp
  next
    assume a: "(k, i) \<in> set li \<and> (\<forall>(k', i') \<in> set li. product_name i' = product_name i \<longrightarrow> k' \<le> k)"
    then have "map_of ?nm (product_name i) = Some k" using g by blast
    then have "\<exists>n \<in> set ns. map_of ?nm n = Some k" using inns by blast
    moreover from a d have "map_of li k = Some i" by simp
    ultimately have "map_of r k = Some i" using mr [of k] by simp
    then show "(k, i) \<in> set r" by (rule map_of_SomeD)
  qed
  then show ?thesis by auto
qed

lemma sort_local_info_total:
  assumes d: "distinct (map fst li)"
    and names: "\<forall>(k, i) \<in> set li. product_name i \<noteq> None"
  shows "\<exists>r. sort_local_info li = Inr r"
proof -
  let ?items = "sorted_items li"
  let ?nm = "name_map_loop ?items []"
  note it = sorted_items_props [OF d]
  have keys: "fst ` set ?nm = (\<lambda>(k, i). product_name i) ` set li"
    by (simp add: name_map_loop_keys it(1))
  with names have "None \<notin> set (map fst ?nm)" by force
  then obtain ns where ns: "sorted_names (map fst ?nm) = Inr ns"
    using sorted_names_total by blast
  from sorted_names_set [OF ns] have sn: "set ns = fst ` set ?nm" by simp
  have pre: "\<forall>n \<in> set ns. \<exists>k i. map_of ?nm n = Some k \<and> map_of li k = Some i"
  proof
    fix n assume "n \<in> set ns"
    with sn have "map_of ?nm n \<noteq> None" by (simp add: map_of_eq_None_iff)
    then obtain k where k: "map_of ?nm n = Some k" by auto
    with name_map_loop_greatest [OF it(2), of n k] obtain i where "(k, i) \<in> set li"
      by (auto simp: it(1))
    with d have "map_of li k = Some i" by simp
    with k show "\<exists>k i. map_of ?nm n = Some k \<and> map_of li k = Some i" by blast
  qed
  from collect_loop_Some [OF pre, of "[]"] obtain r where "collect_loop li ?nm ns [] = Inr r"
    by blast
  with ns show ?thesis by (simp add: sort_local_info_def)
qed

text \<open>
  Claim C10. \<^verbatim>\<open>sort_local_info\<close> keys the records by \<^verbatim>\<open>product_name\<close>. When two installers
  \<open>p < q\<close> of \<^verbatim>\<open>local_info\<close> carry the same product name, its result, whenever it returns
  one, holds only records of \<^verbatim>\<open>local_info\<close> and never the record of \<open>p\<close>; it holds the record
  of \<open>q\<close> exactly when \<open>q\<close> is the last path, in sorted order, with that name, so always
  when no third installer carries the name. It returns a result whenever every product
  name is a string.
\<close>

theorem sort_local_info_drops_same_name:
  assumes "distinct (map fst local_info)"
    and "(p, info_p) \<in> set local_info" and "(q, info_q) \<in> set local_info"
    and "p < q" and "product_name info_p = product_name info_q"
  shows "(\<forall>r. sort_local_info local_info = Inr r \<longrightarrow>
            set r \<subseteq> set local_info \<and> p \<notin> fst ` set r \<and>
            ((q, info_q) \<in> set r \<longleftrightarrow>
               (\<forall>(k, i) \<in> set local_info. product_name i = product_name info_q \<longrightarrow> k \<le> q)) \<and>
            ((\<forall>(k, i) \<in> set local_info. product_name i = product_name info_q \<longrightarrow> k = p \<or> k = q)
               \<longrightarrow> (q, info_q) \<in> set r)) \<and>
         ((\<forall>(k, i) \<in> set local_info. product_name i \<noteq> None) \<longrightarrow>
            (\<exists>r. sort_local_info local_info = Inr r))"
proof (intro conjI allI impI)
  fix r assume r: "sort_local_info local_info = Inr r"
  note s = sort_local_info_result [OF assms(1) r]
  show "set r \<subseteq> set local_info" unfolding s by auto
  show "p \<notin> fst ` set r"
  proof
    assume "p \<in> fst ` set r"
    then obtain i where i: "(p, i) \<in> set r" by auto
    then have "(p, i) \<in> set local_info" unfolding s by simp
    with assms(1,2) have "i = info_p" by (metis map_of_is_SomeI option.inject)
    with i assms(3,5) have "q \<le> p" unfolding s by auto
    with assms(4) show False by simp
  qed
  show "(q, info_q) \<in> set r \<longleftrightarrow>
          (\<forall>(k, i) \<in> set local_info. product_name i = product_name info_q \<longrightarrow> k \<le> q)"
    unfolding s using assms(3) by simp
  show "(q, info_q) \<in> set r"
    if "\<forall>(k, i) \<in> set local_info. product_name i = product_name info_q \<longrightarrow> k = p \<or> k = q"
    unfolding s using assms(3,4) that by force
next
  assume "\<forall>(k, i) \<in> set local_info. product_name i \<noteq> None"
  with assms(1) show "\<exists>r. sort_local_info local_info = Inr r"
    by (rule sort_local_info_total)
qed

text \<open>Two copies of one game under different paths: only the second is left.\<close>

theorem sort_local_info_drops_same_name_witness:
  "sort_local_info
     [(''a.exe'', \<lparr>product_id = ''1'', build_id = Some ''100'', product_name = Some ''Game'',
                  old_version = False, version_name = Some ''1.0''\<rparr>),
      (''b.exe'', \<lparr>product_id = ''2'', build_id = Some ''200'', product_name = Some ''Game'',
                  old_version = False, version_name = Some ''2.0''\<rparr>)]
   = Inr [(''b.exe'', \<lparr>product_id = ''2'', build_id = Some ''200'', product_name = Some ''Game'',
                  old_version = False, version_name = Some ''2.0''\<rparr>)]
   \<and> ''a.exe'' \<notin> fst ` set
       [(''b.exe'', \<lparr>product_id = ''2'', build_id = Some ''200'', product_name = Some ''Game'',
                  old_version = False, version_name = Some ''2.0''\<rparr>)]"
proof -
  let ?a = "\<lparr>product_id = ''1'', build_id = Some ''100'', product_name = Some ''Game'',
                  old_version = False, version_name = Some ''1.0''\<rparr>"
  let ?b = "\<lparr>product_id = ''2'', build_id = Some ''200'', product_name = Some ''Game'',
                  old_version = False, version_name = Some ''2.0''\<rparr>"
  let ?li = "[(''a.exe'', ?a), (''b.exe'', ?b)]"
  have e: "sort_local_info ?li = Inr [(''b.exe'', ?b)]" by code_simp
  have h1: "distinct (map fst ?li)" by simp
  have h2: "(''a.exe'', ?a) \<in> set ?li" by simp
  have h3: "(''b.exe'', ?b) \<in> set ?li" by simp
  have h4: "''a.exe'' < ''b.exe''" by simp
  have h5: "product_name ?a = product_name ?b" by simp
  from sort_local_info_drops_same_name [OF h1 h2 h3 h4 h5, THEN conjunct1, rule_format, OF e]
  have "''a.exe'' \<notin> fst ` set [(''b.exe'', ?b)]" by (rule conjunct2 [THEN conjunct1])
  with e show ?thesis by (rule conjI)
qed

end
